theory Spec2Isabelle
  imports Complex_Main "HOL-Library.Word"
begin

section \<open>Rasters, errors and external collaborators\<close>

text \<open>
  A frame is a numpy array of shape \<open>(h, w, 3)\<close> and dtype \<open>uint8\<close>: a list of rows,
  each row a list of RGB pixels. Frames delivered by the loaders are rectangular and
  have at least one row; an array with zero rows is the empty list (its width is then
  not recorded by this representation).
\<close>

type_synonym u8 = "8 word"
type_synonym pixel = "u8 \<times> u8 \<times> u8"
type_synonym frame = "pixel list list"

datatype error = IndexError | TypeError | ValueError | ZeroDivisionError | Cv2Error

datatype interp = INTER_LINEAR | INTER_NEAREST

definition shape2 :: "frame \<Rightarrow> int \<times> int" where
  \<comment> \<open>\<open>img.shape[:2]\<close>, as \<open>(height, width)\<close>\<close>
  "shape2 f = (int (length f), (case f of [] \<Rightarrow> 0 | r # _ \<Rightarrow> int (length r)))"

definition rect :: "frame \<Rightarrow> bool" where
  \<comment> \<open>every row has the width that \<open>shape2\<close> reports\<close>
  "rect f = list_all (\<lambda>r. int (length r) = snd (shape2 f)) f"

record qpixmap =
  pm_width :: int
  pm_height :: int
  pm_image :: frame

text \<open>
  OpenCV's \<open>cv2.resize\<close> and Qt's pixmap scaling are libraries outside the repository.
  They are parameters of the model; \<open>cv2.resize\<close> may fail (OpenCV raises on an empty
  source or an empty target size).
\<close>

record ext =
  cv2_resize :: "interp \<Rightarrow> frame \<Rightarrow> int \<times> int \<Rightarrow> error + frame"
    \<comment> \<open>\<open>cv2.resize(src, (w, h), interpolation=...)\<close>\<close>
  qt_scaledToWidth :: "qpixmap \<Rightarrow> int \<Rightarrow> qpixmap"
  qt_scaledToHeight :: "qpixmap \<Rightarrow> int \<Rightarrow> qpixmap"

definition py_index :: "'a list \<Rightarrow> int \<Rightarrow> error + 'a" where
  \<comment> \<open>\<open>xs[i]\<close>: indices \<open>-len .. -1\<close> address the list from its end; anything outside
      \<open>-len .. len - 1\<close> raises\<close>
  "py_index xs i =
     (if 0 \<le> i \<and> i < int (length xs) then Inr (xs ! nat i)
      else if - int (length xs) \<le> i \<and> i < 0 then Inr (xs ! nat (int (length xs) + i))
      else Inl IndexError)"

definition np_get2 :: "frame \<Rightarrow> int \<Rightarrow> int \<Rightarrow> error + pixel" where
  \<comment> \<open>\<open>img[y, x]\<close> on an array of shape \<open>(h, w, 3)\<close>\<close>
  "np_get2 f y x =
     (case py_index f y of
        Inl e \<Rightarrow> Inl e
      | Inr row \<Rightarrow>
          (if - snd (shape2 f) \<le> x \<and> x < snd (shape2 f) then py_index row x
           else Inl IndexError))"

section \<open>VideoComparator\<close>

record video_info =
  frames :: "frame list"
  width :: int
  height :: int
  count :: int

record VideoComparator =
  ref_frames :: "frame list"
  comp_frames :: "frame list"
  ref_info :: "video_info option"
  comp_info :: "video_info option"
  current_frame_idx :: int

definition VideoComparator_init :: VideoComparator where
  "VideoComparator_init =
     \<lparr>ref_frames = [], comp_frames = [], ref_info = None, comp_info = None,
      current_frame_idx = 0\<rparr>"

definition set_ref :: "VideoComparator \<Rightarrow> video_info \<Rightarrow> VideoComparator" where
  "set_ref c info = c\<lparr>ref_frames := frames info, ref_info := Some info\<rparr>"

definition set_comp :: "VideoComparator \<Rightarrow> video_info \<Rightarrow> VideoComparator" where
  "set_comp c info = c\<lparr>comp_frames := frames info, comp_info := Some info\<rparr>"

definition frame_count :: "VideoComparator \<Rightarrow> int" where
  "frame_count c =
     (if \<not> (ref_frames c \<noteq> [] \<and> comp_frames c \<noteq> []) then 0
      else min (int (length (ref_frames c))) (int (length (comp_frames c))))"

definition resize_to_ref :: "ext \<Rightarrow> video_info option \<Rightarrow> frame \<Rightarrow> error + frame" where
  \<comment> \<open>the comparison frame, resized to the reference's declared size only if its shape differs;
      subscripting \<open>ref_info\<close> when it is \<open>None\<close> raises\<close>
  "resize_to_ref x ri comp_raw =
     (case ri of
        None \<Rightarrow> Inl TypeError
      | Some i \<Rightarrow>
          if shape2 comp_raw \<noteq> (height i, width i)
          then cv2_resize x INTER_LINEAR comp_raw (width i, height i)
          else Inr comp_raw)"

record pixel_info =
  pix_x :: int
  pix_y :: int
  img1 :: "int \<times> int \<times> int"
  img2 :: "int \<times> int \<times> int"

definition rgb_ints :: "pixel \<Rightarrow> int \<times> int \<times> int" where
  "rgb_ints p = (case p of (r, g, b) \<Rightarrow> (uint r, uint g, uint b))"

definition get_pixel_info ::
  "ext \<Rightarrow> VideoComparator \<Rightarrow> int \<Rightarrow> int \<Rightarrow> error + pixel_info option" where
  "get_pixel_info x c xx yy =
     (case ref_info c of
        None \<Rightarrow> Inr None
      | Some ri \<Rightarrow>
          if \<not> (0 \<le> xx \<and> xx < width ri \<and> 0 \<le> yy \<and> yy < height ri) then Inr None
          else
            (case py_index (ref_frames c) (current_frame_idx c) of
               Inl e \<Rightarrow> Inl e
             | Inr ref \<Rightarrow>
                 (case py_index (comp_frames c) (current_frame_idx c) of
                    Inl e \<Rightarrow> Inl e
                  | Inr comp_raw \<Rightarrow>
                      (case resize_to_ref x (ref_info c) comp_raw of
                         Inl e \<Rightarrow> Inl e
                       | Inr comp_resized \<Rightarrow>
                           (case np_get2 ref yy xx of
                              Inl e \<Rightarrow> Inl e
                            | Inr p1 \<Rightarrow>
                                (case np_get2 comp_resized yy xx of
                                   Inl e \<Rightarrow> Inl e
                                 | Inr p2 \<Rightarrow>
                                     Inr (Some \<lparr>pix_x = xx, pix_y = yy, img1 = rgb_ints p1,
                                                img2 = rgb_ints p2\<rparr>)))))))"

subsection \<open>binary32 arithmetic\<close>

text \<open>
  numpy computes the difference magnitude in \<open>float32\<close>. A finite binary32 number is
  modelled exactly as \<open>F32 m e\<close>, standing for \<open>m * 2 ^ e\<close>. Every operation computes
  the exact result and rounds it to a 24-bit significand, ties to even, as IEEE 754
  prescribes (\<open>f32_rnd p q k\<close> rounds \<open>p / q * 2 ^ k\<close>, for \<open>q > 0\<close>). Overflow to
  infinity is outside the model; the values met here lie between 0 and 255.
\<close>

datatype f32 = F32 int int

function bitlen :: "int \<Rightarrow> int" where
  \<comment> \<open>number of binary digits of a positive integer\<close>
  "bitlen n = (if n \<le> 0 then 0 else 1 + bitlen (n div 2))"
  by pat_completeness auto
termination
  by (relation "measure nat") auto

declare bitlen.simps [simp del]

definition f32_rnd :: "int \<Rightarrow> int \<Rightarrow> int \<Rightarrow> f32" where
  "f32_rnd p q k =
     (if p = 0 then F32 0 0
      else
        (let a = \<bar>p\<bar>;
             t = bitlen a - bitlen q + k;
             e = (if q * 2 ^ nat (t - k) \<le> a * 2 ^ nat (k - t) then t else t - 1);
             e' = max e (- 126);
             sh = k - e' + 23;
             num = a * 2 ^ nat sh;
             den = q * 2 ^ nat (- sh);
             n = num div den;
             r = num mod den;
             m = (if 2 * r < den then n else if den < 2 * r then n + 1
                  else if even n then n else n + 1)
         in F32 (sgn p * m) (e' - 23)))"

fun f32_div :: "f32 \<Rightarrow> f32 \<Rightarrow> f32" where
  "f32_div (F32 m1 e1) (F32 m2 e2) = f32_rnd (m1 * sgn m2) \<bar>m2\<bar> (e1 - e2)"

fun f32_mul :: "f32 \<Rightarrow> f32 \<Rightarrow> f32" where
  "f32_mul (F32 m1 e1) (F32 m2 e2) = f32_rnd (m1 * m2) 1 (e1 + e2)"

fun f32_sub :: "f32 \<Rightarrow> f32 \<Rightarrow> f32" where
  "f32_sub (F32 m1 e1) (F32 m2 e2) =
     (let e = min e1 e2
      in f32_rnd (m1 * 2 ^ nat (e1 - e) - m2 * 2 ^ nat (e2 - e)) 1 e)"

fun f32_le :: "f32 \<Rightarrow> f32 \<Rightarrow> bool" where
  "f32_le (F32 m1 e1) (F32 m2 e2) =
     (let e = min e1 e2 in m1 * 2 ^ nat (e1 - e) \<le> m2 * 2 ^ nat (e2 - e))"

definition f32_clip :: "f32 \<Rightarrow> f32 \<Rightarrow> f32 \<Rightarrow> f32" where
  \<comment> \<open>\<open>np.clip(x, lo, hi)\<close> is \<open>minimum(maximum(x, lo), hi)\<close>\<close>
  "f32_clip v lo hi =
     (let u = (if f32_le lo v then v else lo) in if f32_le u hi then u else hi)"

fun f32_trunc :: "f32 \<Rightarrow> int" where
  \<comment> \<open>conversion to an integer truncates towards zero\<close>
  "f32_trunc (F32 m e) =
     (if 0 \<le> e then m * 2 ^ nat e else sgn m * (\<bar>m\<bar> div 2 ^ nat (- e)))"

definition astype_u8 :: "f32 \<Rightarrow> u8" where
  \<comment> \<open>\<open>.astype(np.uint8)\<close>\<close>
  "astype_u8 v = word_of_int (f32_trunc v)"

definition f32_of_u8 :: "u8 \<Rightarrow> f32" where
  \<comment> \<open>\<open>.astype(np.float32)\<close> of an 8-bit value is exact\<close>
  "f32_of_u8 d = F32 (uint d) 0"

subsection \<open>Frame triplet and difference raster\<close>

definition absdiff_u8 :: "u8 \<Rightarrow> u8 \<Rightarrow> u8" where
  "absdiff_u8 a b = (if a \<le> b then b - a else a - b)"

fun absdiff_px :: "pixel \<Rightarrow> pixel \<Rightarrow> pixel" where
  "absdiff_px (r1, g1, b1) (r2, g2, b2) =
     (absdiff_u8 r1 r2, absdiff_u8 g1 g2, absdiff_u8 b1 b2)"

definition cv2_absdiff :: "frame \<Rightarrow> frame \<Rightarrow> error + frame" where
  \<comment> \<open>\<open>cv2.absdiff\<close> raises when the two arrays differ in size\<close>
  "cv2_absdiff a b =
     (if shape2 a \<noteq> shape2 b then Inl Cv2Error
      else Inr (map2 (map2 absdiff_px) a b))"

fun max3 :: "pixel \<Rightarrow> u8" where
  \<comment> \<open>\<open>np.max(..., axis=2)\<close> at one pixel\<close>
  "max3 (r, g, b) = max r (max g b)"

definition mag_of :: "u8 \<Rightarrow> f32" where
  \<comment> \<open>\<open>np.clip(d.astype(np.float32) / 255.0, 0.0, 1.0)\<close>\<close>
  "mag_of d = f32_clip (f32_div (f32_of_u8 d) (F32 255 0)) (F32 0 0) (F32 1 0)"

definition np_zeros :: "int \<Rightarrow> int \<Rightarrow> frame" where
  \<comment> \<open>\<open>np.zeros((h, w, 3), dtype=np.uint8)\<close>, for non-negative \<open>h\<close> and \<open>w\<close>\<close>
  "np_zeros h w = replicate (nat h) (replicate (nat w) (0, 0, 0))"

fun set_red :: "pixel \<Rightarrow> u8 \<Rightarrow> pixel" where
  "set_red (r, g, b) v = (v, g, b)"

fun set_blue :: "pixel \<Rightarrow> u8 \<Rightarrow> pixel" where
  "set_blue (r, g, b) v = (r, g, v)"

definition compute_diff :: "frame \<Rightarrow> frame \<Rightarrow> error + frame" where
  \<comment> \<open>the difference raster of \<open>get_frame_triplet\<close>; both channel arrays have the shape
      of \<open>ref\<close>, so the two channel assignments cannot fail\<close>
  "compute_diff ref comp_resized =
     (case cv2_absdiff ref comp_resized of
        Inl e \<Rightarrow> Inl e
      | Inr diff_uint \<Rightarrow>
          (let mag = map (map (\<lambda>p. mag_of (max3 p))) diff_uint;
               (h, w) = shape2 ref;
               diff_rgb = np_zeros h w;
               diff_rgb = map2 (map2 set_red) diff_rgb
                            (map (map (\<lambda>m. astype_u8 (f32_mul m (F32 255 0)))) mag);
               diff_rgb = map2 (map2 set_blue) diff_rgb
                            (map (map (\<lambda>m. astype_u8 (f32_mul (f32_sub (F32 1 0) m) (F32 255 0))))
                               mag)
           in Inr diff_rgb))"

definition get_frame_triplet ::
  "ext \<Rightarrow> VideoComparator \<Rightarrow> int \<Rightarrow> bool \<Rightarrow>
   (error + (frame \<times> frame \<times> frame option) option) \<times> VideoComparator" where
  \<comment> \<open>the result \<open>None\<close> stands for the triple \<open>(None, None, None)\<close>; the second component
      is the comparator afterwards (the cursor is written before anything can raise)\<close>
  "get_frame_triplet x c idx do_diff =
     (if frame_count c = 0 then (Inr None, c)
      else
        (let idx = max 0 (min (frame_count c - 1) idx);
             c = c\<lparr>current_frame_idx := idx\<rparr>
         in (case py_index (ref_frames c) idx of
               Inl e \<Rightarrow> (Inl e, c)
             | Inr ref \<Rightarrow>
                 (case py_index (comp_frames c) idx of
                    Inl e \<Rightarrow> (Inl e, c)
                  | Inr comp_raw \<Rightarrow>
                      (case resize_to_ref x (ref_info c) comp_raw of
                         Inl e \<Rightarrow> (Inl e, c)
                       | Inr comp_resized \<Rightarrow>
                           if \<not> do_diff then (Inr (Some (ref, comp_resized, None)), c)
                           else
                             (case compute_diff ref comp_resized of
                                Inl e \<Rightarrow> (Inl e, c)
                              | Inr diff_rgb \<Rightarrow>
                                  (Inr (Some (ref, comp_resized, Some diff_rgb)), c)))))))"

definition chebyshev :: "pixel \<Rightarrow> pixel \<Rightarrow> u8" where
  \<comment> \<open>the largest per-channel absolute difference of two pixels\<close>
  "chebyshev p q = max3 (absdiff_px p q)"

definition red_of :: "u8 \<Rightarrow> u8" where
  \<comment> \<open>the red value the code writes for magnitude \<open>d / 255\<close>\<close>
  "red_of d = astype_u8 (f32_mul (mag_of d) (F32 255 0))"

definition blue_of :: "u8 \<Rightarrow> u8" where
  \<comment> \<open>the blue value the code writes for magnitude \<open>d / 255\<close>\<close>
  "blue_of d = astype_u8 (f32_mul (f32_sub (F32 1 0) (mag_of d)) (F32 255 0))"

definition diff_px :: "pixel \<Rightarrow> pixel \<Rightarrow> pixel" where
  "diff_px p q = (red_of (chebyshev p q), 0, blue_of (chebyshev p q))"

section \<open>ImageViewer\<close>

record ImageViewer =
  pixmap :: "qpixmap option"
  vwidth :: int
  vheight :: int

subsection \<open>binary64 arithmetic\<close>

text \<open>
  The Python floats of \<open>_emit_pixel\<close> are IEEE 754 binary64 numbers. A finite binary64
  number is modelled exactly as \<open>F64 m e\<close>, standing for \<open>m * 2 ^ e\<close>; every operation
  computes the exact result and rounds it to a 53-bit significand, ties to even
  (\<open>f64_rnd p q k\<close> rounds \<open>p / q * 2 ^ k\<close>, for \<open>q > 0\<close>). Comparisons are exact, also
  between an integer and a float. Overflow to infinity is outside the model; widths,
  heights and positions are Qt integers, far below that range.
\<close>

datatype f64 = F64 int int

definition ilog2_ratio :: "int \<Rightarrow> int \<Rightarrow> int \<Rightarrow> int" where
  \<comment> \<open>the binary exponent of \<open>a / q * 2 ^ k\<close>, for positive \<open>a\<close> and \<open>q\<close>: the largest \<open>e\<close>
      with \<open>2 ^ e \<le> a / q * 2 ^ k\<close>\<close>
  "ilog2_ratio a q k =
     (let t = bitlen a - bitlen q + k
      in if q * 2 ^ nat (t - k) \<le> a * 2 ^ nat (k - t) then t else t - 1)"

definition round_half_even :: "int \<Rightarrow> int \<Rightarrow> int" where
  \<comment> \<open>the integer nearest to \<open>num / den\<close>, the even one at a tie\<close>
  "round_half_even num den =
     (let n = num div den; r = num mod den
      in if 2 * r < den then n else if den < 2 * r then n + 1
         else if even n then n else n + 1)"

definition f64_rnd :: "int \<Rightarrow> int \<Rightarrow> int \<Rightarrow> f64" where
  "f64_rnd p q k =
     (if p = 0 then F64 0 0
      else
        (let e = max (ilog2_ratio \<bar>p\<bar> q k) (- 1022);
             sh = k - e + 52
         in F64 (sgn p * round_half_even (\<bar>p\<bar> * 2 ^ nat sh) (q * 2 ^ nat (- sh))) (e - 52)))"

definition f64_of_int :: "int \<Rightarrow> f64" where
  \<comment> \<open>the conversion Python applies to an integer operand of a float operation\<close>
  "f64_of_int n = f64_rnd n 1 0"

definition py_truediv :: "int \<Rightarrow> int \<Rightarrow> f64" where
  \<comment> \<open>\<open>a / b\<close> on two integers, \<open>b\<close> not 0: the exact quotient, rounded once\<close>
  "py_truediv a b = f64_rnd (a * sgn b) \<bar>b\<bar> 0"

fun f64_div :: "f64 \<Rightarrow> f64 \<Rightarrow> f64" where
  "f64_div (F64 m1 e1) (F64 m2 e2) = f64_rnd (m1 * sgn m2) \<bar>m2\<bar> (e1 - e2)"

fun f64_mul :: "f64 \<Rightarrow> f64 \<Rightarrow> f64" where
  "f64_mul (F64 m1 e1) (F64 m2 e2) = f64_rnd (m1 * m2) 1 (e1 + e2)"

fun f64_sub :: "f64 \<Rightarrow> f64 \<Rightarrow> f64" where
  "f64_sub (F64 m1 e1) (F64 m2 e2) =
     (let e = min e1 e2
      in f64_rnd (m1 * 2 ^ nat (e1 - e) - m2 * 2 ^ nat (e2 - e)) 1 e)"

fun f64_le :: "f64 \<Rightarrow> f64 \<Rightarrow> bool" where
  "f64_le (F64 m1 e1) (F64 m2 e2) =
     (let e = min e1 e2 in m1 * 2 ^ nat (e1 - e) \<le> m2 * 2 ^ nat (e2 - e))"

fun f64_lt :: "f64 \<Rightarrow> f64 \<Rightarrow> bool" where
  "f64_lt (F64 m1 e1) (F64 m2 e2) =
     (let e = min e1 e2 in m1 * 2 ^ nat (e1 - e) < m2 * 2 ^ nat (e2 - e))"

fun f64_is_zero :: "f64 \<Rightarrow> bool" where
  "f64_is_zero (F64 m e) = (m = 0)"

definition py_min :: "f64 \<Rightarrow> f64 \<Rightarrow> f64" where
  \<comment> \<open>\<open>min(a, b)\<close> keeps its first argument unless the second is smaller\<close>
  "py_min a b = (if f64_lt b a then b else a)"

fun f64_trunc :: "f64 \<Rightarrow> int" where
  \<comment> \<open>\<open>int(v)\<close> truncates towards zero\<close>
  "f64_trunc (F64 m e) =
     (if 0 \<le> e then m * 2 ^ nat e else sgn m * (\<bar>m\<bar> div 2 ^ nat (- e)))"

text \<open>
  \<open>emit_pixel\<close> returns the coordinates carried by the \<open>pixel_hovered\<close> signal, or \<open>None\<close>
  when no signal is emitted. Dividing by a scale of zero raises.
\<close>

definition emit_pixel :: "ImageViewer \<Rightarrow> int \<times> int \<Rightarrow> error + (int \<times> int) option" where
  "emit_pixel v pos =
     (case pixmap v of
        None \<Rightarrow> Inr None
      | Some pm \<Rightarrow>
          (let img_w = pm_width pm; img_h = pm_height pm
           in if img_w = 0 \<or> img_h = 0 then Inr None
              else
                (let lbl_w = vwidth v;
                     lbl_h = vheight v;
                     scale = py_min (py_truediv lbl_w img_w) (py_truediv lbl_h img_h);
                     disp_w = f64_mul (f64_of_int img_w) scale;
                     disp_h = f64_mul (f64_of_int img_h) scale;
                     offset_x = f64_div (f64_sub (f64_of_int lbl_w) disp_w) (F64 2 0);
                     offset_y = f64_div (f64_sub (f64_of_int lbl_h) disp_h) (F64 2 0)
                 in if f64_is_zero scale then Inl ZeroDivisionError
                    else
                      (let xx = f64_div (f64_sub (f64_of_int (fst pos)) offset_x) scale;
                           yy = f64_div (f64_sub (f64_of_int (snd pos)) offset_y) scale
                       in if f64_le (F64 0 0) xx \<and> f64_lt xx (F64 img_w 0) \<and>
                             f64_le (F64 0 0) yy \<and> f64_lt yy (F64 img_h 0)
                          then Inr (Some (f64_trunc xx, f64_trunc yy))
                          else Inr None))))"

definition mapDisplayToImage_f64 ::
  "int \<Rightarrow> int \<Rightarrow> int \<Rightarrow> int \<Rightarrow> int \<Rightarrow> int \<Rightarrow> (f64 \<times> f64) option" where
  \<comment> \<open>the specification's inverse of the aspect-preserving fit, each step in binary64\<close>
  "mapDisplayToImage_f64 ppx ppy rasterWidth rasterHeight labelWidth labelHeight =
     (let scale = py_min (py_truediv labelWidth rasterWidth)
                         (py_truediv labelHeight rasterHeight);
          displayedWidth = f64_mul (f64_of_int rasterWidth) scale;
          displayedHeight = f64_mul (f64_of_int rasterHeight) scale;
          offsetX = f64_div (f64_sub (f64_of_int labelWidth) displayedWidth) (F64 2 0);
          offsetY = f64_div (f64_sub (f64_of_int labelHeight) displayedHeight) (F64 2 0);
          ix = f64_div (f64_sub (f64_of_int ppx) offsetX) scale;
          iy = f64_div (f64_sub (f64_of_int ppy) offsetY) scale
      in if f64_le (F64 0 0) ix \<and> f64_lt ix (F64 rasterWidth 0) \<and>
            f64_le (F64 0 0) iy \<and> f64_lt iy (F64 rasterHeight 0)
         then Some (ix, iy) else None)"

definition py_int :: "real \<Rightarrow> int" where
  \<comment> \<open>truncation towards zero of an exact value\<close>
  "py_int v = (if 0 \<le> v then \<lfloor>v\<rfloor> else \<lceil>v\<rceil>)"

definition mapDisplayToImage ::
  "int \<Rightarrow> int \<Rightarrow> int \<Rightarrow> int \<Rightarrow> int \<Rightarrow> int \<Rightarrow> (real \<times> real) option" where
  \<comment> \<open>the specification's inverse of the aspect-preserving fit, in exact arithmetic\<close>
  "mapDisplayToImage ppx ppy rasterWidth rasterHeight labelWidth labelHeight =
     (let scale = min (real_of_int labelWidth / real_of_int rasterWidth)
                      (real_of_int labelHeight / real_of_int rasterHeight);
          offsetX = (real_of_int labelWidth - real_of_int rasterWidth * scale) / 2;
          offsetY = (real_of_int labelHeight - real_of_int rasterHeight * scale) / 2;
          ix = (real_of_int ppx - offsetX) / scale;
          iy = (real_of_int ppy - offsetY) / scale
      in if 0 \<le> ix \<and> ix < real_of_int rasterWidth \<and> 0 \<le> iy \<and> iy < real_of_int rasterHeight
         then Some (ix, iy) else None)"

section \<open>VideoComparatorApp: viewport state and rendering\<close>

text \<open>
  The scratch array \<open>_zoom_buffer\<close> is an object with an identity: \<open>buf_id\<close> is the
  serial number of the \<open>np.zeros\<close> call that created it, and \<open>allocs\<close> counts those
  calls. Writing through the alias \<open>out_img\<close> changes \<open>buf_data\<close> of the same object.
\<close>

text \<open>
  The zoom factor is a Python float. It is modelled by the real number it stands for:
  \<open>a // b\<close> on floats is the floor of the exact quotient of the two values, and
  \<open>max\<close> and \<open>min\<close> return one of their arguments.
\<close>

record zbuf =
  buf_id :: nat
  buf_data :: frame

record app =
  comparator :: VideoComparator
  zoom :: real
  pan_x :: int
  pan_y :: int
  rotation_angle :: int
  diff_visible :: bool
  zoom_buffer :: "zbuf option"
  zoom_buffer_shape :: "(int \<times> int \<times> int) option"
  allocs :: nat
  left_view :: ImageViewer
  mid_view :: ImageViewer
  right_view :: ImageViewer
  frame_slider_value :: int

definition np_clip :: "'a::linorder \<Rightarrow> 'a \<Rightarrow> 'a \<Rightarrow> 'a" where
  \<comment> \<open>\<open>np.clip(v, min=lo, max=hi)\<close> is \<open>minimum(maximum(v, lo), hi)\<close>; when \<open>lo > hi\<close> the
      result is \<open>hi\<close>\<close>
  "np_clip v lo hi = min (max v lo) hi"


definition slice_bounds :: "int \<Rightarrow> int \<Rightarrow> int \<Rightarrow> nat \<times> nat" where
  \<comment> \<open>start and length of the slice \<open>[a:b]\<close> of a sequence of length \<open>n\<close>\<close>
  "slice_bounds n a b =
     (let lo = (if a < 0 then max 0 (n + a) else min n a);
          hi = (if b < 0 then max 0 (n + b) else min n b)
      in (nat lo, nat (hi - lo)))"

definition py_slice :: "'a list \<Rightarrow> int \<Rightarrow> int \<Rightarrow> 'a list" where
  "py_slice xs a b =
     (case slice_bounds (int (length xs)) a b of (lo, len) \<Rightarrow> take len (drop lo xs))"

definition np_slice2 :: "frame \<Rightarrow> int \<Rightarrow> int \<Rightarrow> int \<Rightarrow> int \<Rightarrow> frame" where
  \<comment> \<open>\<open>img[r0:r1, c0:c1]\<close>\<close>
  "np_slice2 f r0 r1 c0 c1 = map (\<lambda>row. py_slice row c0 c1) (py_slice f r0 r1)"

definition overwrite :: "'a list \<Rightarrow> nat \<Rightarrow> 'a list \<Rightarrow> 'a list" where
  \<comment> \<open>\<open>xs\<close> with the segment starting at \<open>lo\<close> overwritten by \<open>ys\<close>\<close>
  "overwrite xs lo ys = take lo xs @ ys @ drop (lo + length ys) xs"

definition stretch :: "nat \<Rightarrow> 'a list \<Rightarrow> 'a list" where
  \<comment> \<open>broadcasting along one axis: a single element is repeated\<close>
  "stretch n xs = (if length xs = n then xs else replicate n (hd xs))"

definition np_assign2 ::
  "frame \<Rightarrow> int \<times> int \<Rightarrow> int \<times> int \<Rightarrow> int \<times> int \<Rightarrow> frame \<Rightarrow> nat \<times> nat \<Rightarrow> error + frame"
  where
  \<comment> \<open>\<open>out[r0:r1, c0:c1] = src\<close> for \<open>out\<close> of shape \<open>(H, W, 3)\<close> and \<open>src\<close> of shape
      \<open>(sh, sw, 3)\<close>; numpy raises unless \<open>src\<close> can be broadcast to the target region\<close>
  "np_assign2 out shp rr cc src sshp =
     (case shp of (H, W) \<Rightarrow>
      case slice_bounds H (fst rr) (snd rr) of (r0, dh) \<Rightarrow>
      case slice_bounds W (fst cc) (snd cc) of (c0, dw) \<Rightarrow>
      case sshp of (sh, sw) \<Rightarrow>
        if \<not> ((sh = dh \<or> sh = 1) \<and> (sw = dw \<or> sw = 1)) then Inl ValueError
        else Inr (overwrite out r0
                    (map2 (\<lambda>orow srow. overwrite orow c0 (stretch dw srow))
                       (take dh (drop r0 out)) (stretch dh src))))"

definition crop_dim :: "int \<Rightarrow> real \<Rightarrow> int" where
  \<comment> \<open>\<open>int(out // zoom // 2) * 2\<close>\<close>
  "crop_dim out z = \<lfloor>real_of_int \<lfloor>real_of_int out / z\<rfloor> / 2\<rfloor> * 2"

definition crop_h_of :: "app \<Rightarrow> int" where
  \<comment> \<open>the crop height \<open>_zoom_in1\<close> computes in state \<open>s\<close>\<close>
  "crop_h_of s = crop_dim (vheight (left_view s)) (zoom s)"

definition crop_w_of :: "app \<Rightarrow> int" where
  "crop_w_of s = crop_dim (vwidth (left_view s)) (zoom s)"

definition ensure_buffer :: "int \<times> int \<times> int \<Rightarrow> app \<Rightarrow> error + zbuf \<times> app" where
  \<comment> \<open>lines 773-781 of \<open>_zoom_in1\<close>: the buffer to draw into, and the state afterwards;
      \<open>np.zeros\<close> raises on a negative dimension\<close>
  "ensure_buffer target_shape s =
     (if zoom_buffer_shape s \<noteq> Some target_shape then
        (case target_shape of (crop_h, crop_w, _) \<Rightarrow>
           if crop_h < 0 \<or> crop_w < 0 then Inl ValueError
           else
             (let b = \<lparr>buf_id = allocs s, buf_data = np_zeros crop_h crop_w\<rparr>
              in Inr (b, s\<lparr>zoom_buffer := Some b, zoom_buffer_shape := Some target_shape,
                           allocs := Suc (allocs s)\<rparr>)))
      else
        (case zoom_buffer s of
           None \<Rightarrow> Inl TypeError
         | Some b \<Rightarrow>
             (let b' = b\<lparr>buf_data := map (map (\<lambda>_. (0, 0, 0))) (buf_data b)\<rparr>
              in Inr (b', s\<lparr>zoom_buffer := Some b'\<rparr>))))"

definition clamp_pan :: "int \<Rightarrow> int \<Rightarrow> frame \<Rightarrow> app \<Rightarrow> app" where
  \<comment> \<open>lines 783-790 of \<open>_zoom_in1\<close>: the pan offsets are clamped and written back\<close>
  "clamp_pan crop_h crop_w img s =
     (let (h, w) = shape2 img;
          img_h_c = h div 2;
          img_w_c = w div 2;
          clamped_h = np_clip (pan_y s) (- img_h_c + crop_h div 2) (img_h_c - crop_h div 2);
          clamped_w = np_clip (pan_x s) (- img_w_c + crop_w div 2) (img_w_c - crop_w div 2)
      in s\<lparr>pan_x := clamped_w, pan_y := clamped_h\<rparr>)"

definition paste_crop :: "int \<Rightarrow> int \<Rightarrow> frame \<Rightarrow> int \<Rightarrow> int \<Rightarrow> frame \<Rightarrow> error + frame" where
  \<comment> \<open>lines 783-800 of \<open>_zoom_in1\<close>: the crop around the panned centre is copied into the
      middle of the buffer \<open>out_img\<close> of shape \<open>(crop_h, crop_w, 3)\<close>\<close>
  "paste_crop crop_h crop_w img clamped_h clamped_w out_img =
     (let (h, w) = shape2 img;
          img_h_c = h div 2 + clamped_h;
          img_w_c = w div 2 + clamped_w;
          crop_h_start = max 0 (img_h_c - crop_h div 2);
          crop_w_start = max 0 (img_w_c - crop_w div 2);
          crop_h_end = img_h_c + crop_h div 2;
          crop_w_end = img_w_c + crop_w div 2;
          crop_h_actual = crop_h_end - crop_h_start;
          crop_w_actual = crop_w_end - crop_w_start;
          crop = np_slice2 img crop_h_start crop_h_end crop_w_start crop_w_end;
          crop_shape = (snd (slice_bounds h crop_h_start crop_h_end),
                        snd (slice_bounds w crop_w_start crop_w_end))
      in np_assign2 out_img (crop_h, crop_w)
           (crop_h div 2 - crop_h_actual div 2, crop_h div 2 + crop_h_actual div 2)
           (crop_w div 2 - crop_w_actual div 2, crop_w div 2 + crop_w_actual div 2)
           crop crop_shape)"

definition zoom_in1 :: "ext \<Rightarrow> frame \<Rightarrow> app \<Rightarrow> (error + frame) \<times> app" where
  \<comment> \<open>the result and the application state afterwards; at a raise, the state is the one
      reached when the exception leaves the function\<close>
  "zoom_in1 x img s =
     (let out_h = vheight (left_view s); out_w = vwidth (left_view s)
      in if zoom s = 0 then (Inl ZeroDivisionError, s)
         else
           (let crop_h = crop_dim out_h (zoom s);
                crop_w = crop_dim out_w (zoom s);
                target_shape = (crop_h, crop_w, 3)
            in case ensure_buffer target_shape s of
                 Inl e \<Rightarrow> (Inl e, s)
               | Inr (out_img, s1) \<Rightarrow>
                   (let s2 = clamp_pan crop_h crop_w img s1
                    in case paste_crop crop_h crop_w img (pan_y s2) (pan_x s2)
                              (buf_data out_img) of
                         Inl e \<Rightarrow> (Inl e, s2)
                       | Inr d \<Rightarrow>
                           (cv2_resize x INTER_NEAREST d (out_w, out_h),
                            s2\<lparr>zoom_buffer := Some (out_img\<lparr>buf_data := d\<rparr>)\<rparr>))))"

definition cv2_rotate :: "int \<Rightarrow> frame \<Rightarrow> frame" where
  \<comment> \<open>\<open>cv2.rotate\<close> by the angle held in \<open>rotation_angle\<close>: 90 is clockwise, 270 is
      counter-clockwise; any other angle leaves the image as it is\<close>
  "cv2_rotate angle img =
     (if angle = 90 then map rev (transpose img)
      else if angle = 180 then rev (map rev img)
      else if angle = 270 then rev (transpose img)
      else img)"

definition apply_view_transform :: "ext \<Rightarrow> frame \<Rightarrow> app \<Rightarrow> (error + frame) \<times> app" where
  "apply_view_transform x img s = zoom_in1 x (cv2_rotate (rotation_angle s) img) s"

definition set_pixmap :: "ext \<Rightarrow> ImageViewer \<Rightarrow> frame \<Rightarrow> ImageViewer" where
  "set_pixmap x label img_np =
     (let (h, w) = shape2 img_np;
          pm = \<lparr>pm_width = w, pm_height = h, pm_image = img_np\<rparr>;
          label_w = vwidth label;
          label_h = vheight label;
          pm = (if label_w > 0 \<and> label_h > 0 \<and> (pm_width pm > label_w \<or> pm_height pm > label_h)
                then (if real_of_int (pm_width pm) / real_of_int label_w
                          > real_of_int (pm_height pm) / real_of_int label_h
                      then qt_scaledToWidth x pm label_w
                      else qt_scaledToHeight x pm label_h)
                else pm)
      in label\<lparr>pixmap := Some pm\<rparr>)"

definition display_triplet ::
  "ext \<Rightarrow> frame \<Rightarrow> frame \<Rightarrow> frame option \<Rightarrow> app \<Rightarrow> (error + unit) \<times> app" where
  "display_triplet x ref cmp diff s =
     (case apply_view_transform x ref s of
        (Inl e, s1) \<Rightarrow> (Inl e, s1)
      | (Inr ref_t, s1) \<Rightarrow>
          (case apply_view_transform x cmp s1 of
             (Inl e, s2) \<Rightarrow> (Inl e, s2)
           | (Inr comp_t, s2) \<Rightarrow>
               (let s3 = s2\<lparr>left_view := set_pixmap x (left_view s2) ref_t\<rparr>;
                    s4 = s3\<lparr>mid_view := set_pixmap x (mid_view s3) comp_t\<rparr>
                in case diff of
                     None \<Rightarrow> (Inr (), s4)
                   | Some d \<Rightarrow>
                       if \<not> diff_visible s4 then (Inr (), s4)
                       else
                         (case apply_view_transform x d s4 of
                            (Inl e, s5) \<Rightarrow> (Inl e, s5)
                          | (Inr diff_t, s5) \<Rightarrow>
                              (Inr (), s5\<lparr>right_view := set_pixmap x (right_view s5) diff_t\<rparr>)))))"

definition on_frame_changed :: "ext \<Rightarrow> int \<Rightarrow> app \<Rightarrow> (error + unit) \<times> app" where
  "on_frame_changed x idx s =
     (case get_frame_triplet x (comparator s) idx (diff_visible s) of
        (Inl e, c) \<Rightarrow> (Inl e, s\<lparr>comparator := c\<rparr>)
      | (Inr None, c) \<Rightarrow> (Inr (), s\<lparr>comparator := c\<rparr>)
      | (Inr (Some (ref, cmp, diff)), c) \<Rightarrow>
          display_triplet x ref cmp diff (s\<lparr>comparator := c\<rparr>))"


definition on_pan_requested :: "ext \<Rightarrow> int \<Rightarrow> int \<Rightarrow> app \<Rightarrow> (error + unit) \<times> app" where
  "on_pan_requested x dx dy s =
     (let s1 = s\<lparr>pan_x := pan_x s + dx, pan_y := pan_y s + dy\<rparr>
      in on_frame_changed x (frame_slider_value s1) s1)"

definition reset_pan_and_refresh :: "ext \<Rightarrow> app \<Rightarrow> (error + unit) \<times> app" where
  "reset_pan_and_refresh x s =
     (let s1 = s\<lparr>pan_x := 0, pan_y := 0\<rparr>
      in on_frame_changed x (frame_slider_value s1) s1)"

definition rotate_left :: "ext \<Rightarrow> app \<Rightarrow> (error + unit) \<times> app" where
  "rotate_left x s =
     reset_pan_and_refresh x (s\<lparr>rotation_angle := (rotation_angle s - 90) mod 360\<rparr>)"

definition rotate_right :: "ext \<Rightarrow> app \<Rightarrow> (error + unit) \<times> app" where
  "rotate_right x s =
     reset_pan_and_refresh x (s\<lparr>rotation_angle := (rotation_angle s + 90) mod 360\<rparr>)"

definition reset_rotation :: "ext \<Rightarrow> app \<Rightarrow> (error + unit) \<times> app" where
  "reset_rotation x s = reset_pan_and_refresh x (s\<lparr>rotation_angle := 0\<rparr>)"


definition app_init :: "int \<Rightarrow> int \<Rightarrow> app" where
  \<comment> \<open>the state set up by \<open>__init__\<close>, for viewers of the given width and height\<close>
  "app_init vw vh =
     (let v = \<lparr>pixmap = None, vwidth = vw, vheight = vh\<rparr>
      in \<lparr>comparator = VideoComparator_init, zoom = 1, pan_x = 0, pan_y = 0,
          rotation_angle = 0, diff_visible = True, zoom_buffer = None,
          zoom_buffer_shape = None, allocs = 0, left_view = v, mid_view = v,
          right_view = v, frame_slider_value = 0\<rparr>)"

section \<open>Concrete inputs and the specification's formulas\<close>

definition src_window :: "int \<Rightarrow> int \<Rightarrow> int \<Rightarrow> nat \<times> nat" where
  \<comment> \<open>along one axis of an image of size \<open>n\<close>, for crop size \<open>c\<close> and clamped pan \<open>q\<close>:
      first index and length of the slice \<open>[crop_start:crop_end]\<close> that \<open>paste_crop\<close> reads\<close>
  "src_window n c q =
     (let centre = n div 2 + q;
          crop_start = max 0 (centre - c div 2);
          crop_end = centre + c div 2
      in slice_bounds n crop_start crop_end)"

definition dst_window :: "int \<Rightarrow> int \<Rightarrow> int \<Rightarrow> nat \<times> nat" where
  \<comment> \<open>first index and length of the slice of the buffer that \<open>paste_crop\<close> writes\<close>
  "dst_window n c q =
     (let centre = n div 2 + q;
          crop_start = max 0 (centre - c div 2);
          crop_end = centre + c div 2;
          crop_actual = crop_end - crop_start
      in slice_bounds c (c div 2 - crop_actual div 2) (c div 2 + crop_actual div 2))"

definition overlay :: "int \<Rightarrow> int \<Rightarrow> frame \<Rightarrow> nat \<times> nat \<Rightarrow> nat \<times> nat \<Rightarrow> nat \<times> nat \<Rightarrow> frame" where
  \<comment> \<open>a black raster of \<open>bh\<close> rows and \<open>bw\<close> columns onto which the block of \<open>img\<close> that
      starts at \<open>(sr, sc)\<close> and has \<open>(lr, lc)\<close> rows and columns is copied at \<open>(dr, dc)\<close>\<close>
  "overlay bh bw img srcpos dstpos len =
     (case srcpos of (sr, sc) \<Rightarrow> case dstpos of (dr, dc) \<Rightarrow> case len of (lr, lc) \<Rightarrow>
        map (\<lambda>r. map (\<lambda>c. if dr \<le> r \<and> r < dr + lr \<and> dc \<le> c \<and> c < dc + lc
                            then img ! (sr + (r - dr)) ! (sc + (c - dc))
                            else (0, 0, 0))
                     [0..<nat bw])
            [0..<nat bh])"

definition buffer_inv :: "app \<Rightarrow> bool" where
  \<comment> \<open>the recorded shape is the shape of the scratch array, and the array is one of
      those allocated so far\<close>
  "buffer_inv s =
     (case zoom_buffer_shape s of
        None \<Rightarrow> True
      | Some (bh, bw, _) \<Rightarrow>
          (case zoom_buffer s of
             None \<Rightarrow> False
           | Some b \<Rightarrow>
               int (length (buf_data b)) = bh \<and>
               list_all (\<lambda>r. int (length r) = bw) (buf_data b) \<and>
               buf_id b < allocs s))"




definition spec_diff_px :: "pixel \<Rightarrow> pixel \<Rightarrow> pixel" where
  \<comment> \<open>the specification's formula, in exact arithmetic: magnitude \<open>d / 255\<close> clamped to
      \<open>[0, 1]\<close>, red \<open>round (mag * 255)\<close>, green 0, blue \<open>round ((1 - mag) * 255)\<close>\<close>
  "spec_diff_px p q =
     (let mag = max 0 (min 1 (of_int (uint (chebyshev p q)) / 255 :: real))
      in (word_of_int (round (mag * 255)), 0, word_of_int (round ((1 - mag) * 255))))"



definition solid :: "nat \<Rightarrow> nat \<Rightarrow> pixel \<Rightarrow> frame" where
  \<comment> \<open>a frame of one colour\<close>
  "solid h w p = replicate h (replicate w p)"

definition black1 :: video_info where
  \<comment> \<open>a sequence of one 1x1 black frame\<close>
  "black1 = \<lparr>frames = [[[(0, 0, 0)]]], width = 1, height = 1, count = 1\<rparr>"

definition five_black :: video_info where
  \<comment> \<open>a sequence of five 1x1 black frames\<close>
  "five_black = \<lparr>frames = replicate 5 [[(0, 0, 0)]], width = 1, height = 1, count = 5\<rparr>"

definition no_ext :: ext where
  \<comment> \<open>collaborators that always fail or do nothing\<close>
  "no_ext = \<lparr>cv2_resize = (\<lambda>_ _ _. Inl Cv2Error), qt_scaledToWidth = (\<lambda>pm _. pm),
             qt_scaledToHeight = (\<lambda>pm _. pm)\<rparr>"

section \<open>Sequence replacement\<close>

text \<open>
  C9 (as stated): set_ref and set_comp replace the respective sequence and reset the
  current-index cursor to 0. The code does not touch the cursor: after two sequences of
  five frames are set and frame 3 is fetched, the cursor is 3, and it is still 3 after
  set_ref with a new sequence.
\<close>

theorem set_ref_cursor_counterexample:
  "current_frame_idx
     (snd (get_frame_triplet no_ext
             (set_comp (set_ref VideoComparator_init five_black) five_black) 3 False)) = 3 \<and>
   current_frame_idx
     (set_ref
        (snd (get_frame_triplet no_ext
                (set_comp (set_ref VideoComparator_init five_black) five_black) 3 False))
        black1) = 3"
  by (simp add: get_frame_triplet_def frame_count_def set_ref_def set_comp_def
      VideoComparator_init_def five_black_def py_index_def resize_to_ref_def shape2_def
      Let_def)

text \<open>
  C9 (amended): set_ref and set_comp replace the respective sequence (frame list and
  info) and leave the cursor and the other sequence as they were.
\<close>

theorem set_ref_set_comp_replace:
  "ref_frames (set_ref c info) = frames info \<and> ref_info (set_ref c info) = Some info \<and>
   comp_frames (set_ref c info) = comp_frames c \<and> comp_info (set_ref c info) = comp_info c \<and>
   current_frame_idx (set_ref c info) = current_frame_idx c \<and>
   comp_frames (set_comp c info) = frames info \<and> comp_info (set_comp c info) = Some info \<and>
   ref_frames (set_comp c info) = ref_frames c \<and> ref_info (set_comp c info) = ref_info c \<and>
   current_frame_idx (set_comp c info) = current_frame_idx c"
  by (simp add: set_ref_def set_comp_def)

section \<open>Pixel lookup\<close>

text \<open>
  C3: get_pixel_info returns None rather than raising whenever no reference is loaded,
  or the coordinate is out of the reference bounds, or the comparison sequence is absent
  or shorter than the cursor. The code checks the first two only: with a reference
  loaded, no comparison loaded and an in-range coordinate, indexing the empty comparison
  list raises IndexError.
\<close>

theorem get_pixel_info_comp_absent_raises:
  "get_pixel_info no_ext (set_ref VideoComparator_init black1) 0 0 = Inl IndexError"
  by (simp add: get_pixel_info_def set_ref_def VideoComparator_init_def black1_def
      py_index_def)

section \<open>Difference raster\<close>

text \<open>
  The two exhaustive tables below run the binary32 computation of the code for each of
  the 256 possible magnitudes.
\<close>

lemma u8_cases:
  assumes "list_all (\<lambda>n. P (word_of_nat n :: u8)) [0..<256]"
  shows "P d"
proof -
  have "unat d < 256" using unsigned_less [of d] by simp
  then have "unat d \<in> set [0..<256]" by simp
  with assms have "P (word_of_nat (unat d) :: u8)"
    unfolding list_all_iff by blast
  then show ?thesis by simp
qed

lemma rect_nth: "rect f \<Longrightarrow> i < length f \<Longrightarrow> int (length (f ! i)) = snd (shape2 f)"
  by (simp add: rect_def list_all_length)

lemma shape2_length: "shape2 a = shape2 b \<Longrightarrow> length a = length b"
  by (simp add: shape2_def)

lemma compute_diff_eq:
  assumes "rect a" "rect b" "shape2 a = shape2 b"
  shows "compute_diff a b = Inr (map2 (map2 diff_px) a b)"
proof -
  obtain h w where sa: "shape2 a = (h, w)" by (cases "shape2 a")
  have sb: "shape2 b = (h, w)" using assms(3) sa by simp
  have h: "nat h = length a" "length b = length a"
    using sa sb by (auto simp: shape2_def)
  have rows: "i < length a \<Longrightarrow> length (a ! i) = nat w \<and> length (b ! i) = nat w" for i
    using rect_nth [OF assms(1), of i] rect_nth [OF assms(2), of i] sa sb h by auto
  have "map2 (map2 set_blue)
          (map2 (map2 set_red) (np_zeros h w)
             (map (map (\<lambda>m. astype_u8 (f32_mul m (F32 255 0))))
                (map (map (\<lambda>p. mag_of (max3 p))) (map2 (map2 absdiff_px) a b))))
          (map (map (\<lambda>m. astype_u8 (f32_mul (f32_sub (F32 1 0) m) (F32 255 0))))
             (map (map (\<lambda>p. mag_of (max3 p))) (map2 (map2 absdiff_px) a b)))
        = map2 (map2 diff_px) a b" (is "?L = ?R")
  proof (rule nth_equalityI)
    show "length ?L = length ?R" by (simp add: np_zeros_def h)
  next
    fix i assume "i < length ?L"
    then have i: "i < length a" by (simp add: np_zeros_def h)
    show "?L ! i = ?R ! i"
    proof (rule nth_equalityI)
      show "length (?L ! i) = length (?R ! i)"
        using i rows [OF i] by (simp add: np_zeros_def h)
    next
      fix j assume "j < length (?L ! i)"
      then have j: "j < nat w" using i rows [OF i] by (simp add: np_zeros_def h)
      show "?L ! i ! j = ?R ! i ! j"
        using i j rows [OF i]
        by (simp add: np_zeros_def h diff_px_def red_of_def blue_of_def chebyshev_def)
    qed
  qed
  then show ?thesis
    unfolding compute_diff_def cv2_absdiff_def
    by (simp add: sa sb Let_def)
qed


lemma red_of_table:
  "list_all (\<lambda>n. red_of (word_of_nat n) = word_of_nat n) [0..<256]"
  by code_simp

lemma blue_of_table:
  "list_all (\<lambda>n. uint (blue_of (word_of_nat n)) = 255 - int n \<or>
                 uint (blue_of (word_of_nat n)) = 254 - int n) [0..<256]"
  by code_simp

lemma red_of_eq: "red_of d = d"
  by (rule u8_cases [where P = "\<lambda>d. red_of d = d", OF red_of_table])

lemma blue_of_cases:
  "uint (blue_of d) = 255 - uint d \<or> uint (blue_of d) = 254 - uint d"
proof -
  have "unat d < 256" using unsigned_less [of d] by simp
  then have "unat d \<in> set [0..<256]" by simp
  with blue_of_table
  have "uint (blue_of (word_of_nat (unat d))) = 255 - int (unat d) \<or>
        uint (blue_of (word_of_nat (unat d))) = 254 - int (unat d)"
    unfolding list_all_iff by blast
  then show ?thesis by simp
qed











text \<open>
  C2 (as stated): red is \<open>round (mag * 255)\<close> and blue is \<open>round ((1 - mag) * 255)\<close>.
  The code converts with \<open>astype(np.uint8)\<close>, which truncates: for two pixels at
  Chebyshev distance 128 the binary32 product \<open>(1 - mag) * 255\<close> is just below 127 and
  the code writes blue 126, where the stated formula gives 127.
\<close>

theorem compute_diff_round_counterexample:
  "compute_diff [[(128, 0, 0)]] [[(0, 0, 0)]] = Inr [[(128, 0, 126)]] \<and>
   map2 (map2 spec_diff_px) [[(128, 0, 0)]] [[(0, 0, 0)]] = [[(128, 0, 127)]] \<and>
   compute_diff [[(128, 0, 0)]] [[(0, 0, 0)]] \<noteq>
     Inr (map2 (map2 spec_diff_px) [[(128, 0, 0)]] [[(0, 0, 0)]])"
proof -
  have c: "chebyshev (128, 0, 0) (0, 0, 0) = 128" by code_simp
  have a: "compute_diff [[(128, 0, 0)]] [[(0, 0, 0)]] = Inr [[(128, 0, 126)]]" by code_simp
  show ?thesis by (simp add: a spec_diff_px_def c round_def)
qed

text \<open>
  C2 (amended): for equally-sized frames, at every pixel with Chebyshev distance \<open>d\<close>,
  the code writes red = \<open>d\<close>, green = 0 and blue = the binary32 value of
  \<open>(1 - mag) * 255\<close> truncated towards zero, which is \<open>255 - d\<close> or \<open>254 - d\<close>.
\<close>

theorem compute_diff_truncates:
  "rect a \<Longrightarrow> rect b \<Longrightarrow> shape2 a = shape2 b \<Longrightarrow>
     compute_diff a b = Inr (map2 (map2 diff_px) a b) \<and>
     (\<forall>p q. \<exists>bl. diff_px p q = (chebyshev p q, 0, bl) \<and> bl = blue_of (chebyshev p q) \<and>
        (uint bl = 255 - uint (chebyshev p q) \<or> uint bl = 254 - uint (chebyshev p q)))"
  using blue_of_cases by (simp add: compute_diff_eq diff_px_def red_of_eq)

theorem compute_diff_truncates_witness:
  "rect [[(10, 20, 30), (200, 0, 0)]] \<and> rect [[(10, 20, 30), (0, 0, 100)]] \<and>
   shape2 [[(10, 20, 30), (200, 0, 0)]] = shape2 [[(10, 20, 30), (0, 0, 100)]] \<and>
   compute_diff [[(10, 20, 30), (200, 0, 0)]] [[(10, 20, 30), (0, 0, 100)]] =
     Inr [[(0, 0, 255), (200, 0, 54)]]"
proof -
  have r1: "rect [[(10, 20, 30), (200, 0, 0)]]" by code_simp
  have r2: "rect [[(10, 20, 30), (0, 0, 100)]]" by code_simp
  have s: "shape2 [[(10, 20, 30), (200, 0, 0)]] = shape2 [[(10, 20, 30), (0, 0, 100)]]"
    by code_simp
  have v: "map2 (map2 diff_px) [[(10, 20, 30), (200, 0, 0)]] [[(10, 20, 30), (0, 0, 100)]] =
             [[(0, 0, 255), (200, 0, 54)]]"
    by code_simp
  show ?thesis
    using compute_diff_truncates [OF r1 r2 s] r1 r2 s unfolding v by blast
qed

section \<open>Display-to-image mapping\<close>

lemma bitlen_nonneg: "0 \<le> bitlen n"
proof (induction n rule: bitlen.induct)
  case (1 n)
  then show ?case by (subst bitlen.simps) auto
qed

lemma bitlen_pos: "0 < n \<Longrightarrow> 1 \<le> bitlen n"
  using bitlen_nonneg [of "n div 2"] by (subst bitlen.simps) auto

lemma bitlen_upper: "0 < n \<Longrightarrow> n < 2 ^ nat (bitlen n)"
proof (induction n rule: bitlen.induct)
  case (1 n)
  show ?case
  proof (cases "n div 2 = 0")
    case True
    then have "n = 1" using "1.prems" by presburger
    then show ?thesis by (simp add: bitlen.simps)
  next
    case False
    then have h: "0 < n div 2" using "1.prems" by presburger
    have ih: "n div 2 < 2 ^ nat (bitlen (n div 2))" using "1.IH" "1.prems" h by simp
    have "bitlen n = 1 + bitlen (n div 2)" using "1.prems" by (subst bitlen.simps) simp
    then have "nat (bitlen n) = Suc (nat (bitlen (n div 2)))"
      using bitlen_nonneg [of "n div 2"] by simp
    moreover have "n < 2 * (n div 2 + 1)" by presburger
    ultimately show ?thesis using ih by simp
  qed
qed

lemma bitlen_le: "n < 2 ^ k \<Longrightarrow> bitlen n \<le> int k"
proof (induction n arbitrary: k rule: bitlen.induct)
  case (1 n)
  show ?case
  proof (cases "n \<le> 0")
    case True
    then show ?thesis by (simp add: bitlen.simps)
  next
    case False
    then have pos: "0 < n" by simp
    then obtain j where k: "k = Suc j" using "1.prems" by (cases k) auto
    have "n div 2 < 2 ^ j" using "1.prems" k by simp
    from "1.IH" [OF False this] have "bitlen (n div 2) \<le> int j" .
    moreover have "bitlen n = 1 + bitlen (n div 2)" using pos by (subst bitlen.simps) simp
    ultimately show ?thesis using k by simp
  qed
qed

lemma ilog2_ratio_bounds:
  "bitlen a - bitlen q + k - 1 \<le> ilog2_ratio a q k" "ilog2_ratio a q k \<le> bitlen a - bitlen q + k"
  by (simp_all add: ilog2_ratio_def Let_def)

lemma round_half_even_ge: "num div den \<le> round_half_even num den"
  by (simp add: round_half_even_def Let_def)

lemma f64_rnd_pos:
  assumes "0 < p" "p < 2 ^ 31" "0 < q" "q < 2 ^ 31"
  shows "\<exists>m e. f64_rnd p q 0 = F64 m e \<and> 0 < m"
proof -
  define e where "e = ilog2_ratio p q 0"
  have lp: "1 \<le> bitlen p" "bitlen p \<le> 31"
    using bitlen_pos [OF assms(1)] bitlen_le [OF assms(2)] by simp_all
  have lq: "1 \<le> bitlen q" "bitlen q \<le> 31"
    using bitlen_pos [OF assms(3)] bitlen_le [OF assms(4)] by simp_all
  have eb: "bitlen p - bitlen q - 1 \<le> e" "e \<le> bitlen p - bitlen q"
    using ilog2_ratio_bounds [of p q 0] by (simp_all add: e_def)
  have e': "max e (- 1022) = e" using eb lp lq by simp
  have shp: "bitlen q \<le> 52 - e" using eb lp lq by simp
  define num where "num = p * 2 ^ nat (52 - e)"
  have "q < 2 ^ nat (bitlen q)" by (rule bitlen_upper [OF assms(3)])
  also have "\<dots> \<le> (2::int) ^ nat (52 - e)"
    using shp by (intro power_increasing) simp_all
  also have "\<dots> \<le> num" unfolding num_def using assms(1) by simp
  finally have "q \<le> num" by simp
  then have "0 < num div q"
    using assms(3) by (simp add: pos_imp_zdiv_pos_iff)
  then have n1: "0 < round_half_even num q"
    using round_half_even_ge [of num q] by linarith
  have sh0: "nat (e - 52) = 0" using shp lq by simp
  have p: "\<bar>p\<bar> = p" "sgn p = 1" "p \<noteq> 0" using assms(1) by simp_all
  have eq: "f64_rnd p q 0 = F64 (round_half_even num q) (e - 52)"
    unfolding f64_rnd_def Let_def p(1,2) e_def [symmetric] e'
    using p(3) by (simp add: num_def sh0)
  show ?thesis using eq n1 by blast
qed

lemma py_truediv_pos:
  assumes "0 < a" "a < 2 ^ 31" "0 < b" "b < 2 ^ 31"
  shows "\<exists>m e. py_truediv a b = F64 m e \<and> 0 < m"
  using f64_rnd_pos [OF assms] assms(3) by (simp add: py_truediv_def)

lemma scale_not_zero:
  assumes "0 < rw" "rw < 2 ^ 31" "0 < rh" "rh < 2 ^ 31"
    "0 < lw" "lw < 2 ^ 31" "0 < lh" "lh < 2 ^ 31"
  shows "\<not> f64_is_zero (py_min (py_truediv lw rw) (py_truediv lh rh))"
proof -
  obtain m1 e1 where a: "py_truediv lw rw = F64 m1 e1" "0 < m1"
    using py_truediv_pos [OF assms(5,6,1,2)] by blast
  obtain m2 e2 where b: "py_truediv lh rh = F64 m2 e2" "0 < m2"
    using py_truediv_pos [OF assms(7,8,3,4)] by blast
  show ?thesis using a b by (simp add: py_min_def)
qed

lemma div_less_of_less_mult:
  fixes m d w :: int
  assumes "0 < d" "m < w * d"
  shows "m div d < w"
proof (rule ccontr)
  assume "\<not> m div d < w"
  then have "w \<le> m div d" by simp
  then have "w * d \<le> (m div d) * d" using assms(1) by (simp add: mult_right_mono)
  also have "\<dots> \<le> m"
    using pos_mod_sign [OF assms(1), of m] minus_mod_eq_div_mult [of m d] by linarith
  finally show False using assms(2) by simp
qed

lemma f64_trunc_range:
  assumes "f64_le (F64 0 0) v" "f64_lt v (F64 w 0)"
  shows "0 \<le> f64_trunc v \<and> f64_trunc v < w"
proof (cases v)
  case (F64 m e)
  have m0: "0 \<le> m"
    using assms(1) unfolding F64 by (simp add: Let_def zero_le_mult_iff)
  show ?thesis
  proof (cases "0 \<le> e")
    case True
    then have "min e 0 = 0" by simp
    then have "m * 2 ^ nat e < w" using assms(2) unfolding F64 by (simp add: Let_def)
    then show ?thesis using m0 True unfolding F64 by simp
  next
    case False
    then have "min e 0 = e" by simp
    then have lt: "m < w * 2 ^ nat (- e)" using assms(2) unfolding F64 by (simp add: Let_def)
    have "m div 2 ^ nat (- e) < w" by (rule div_less_of_less_mult [OF _ lt]) simp
    moreover have "0 \<le> m div 2 ^ nat (- e)" using m0 by (simp add: pos_imp_zdiv_nonneg_iff)
    moreover have "sgn m * (\<bar>m\<bar> div 2 ^ nat (- e)) = m div 2 ^ nat (- e)"
      using m0 by (cases "m = 0") simp_all
    ultimately show ?thesis using False unfolding F64 by simp
  qed
qed

text \<open>
  C7 (as stated): the display point maps to ((px - offsetX) / scale, (py - offsetY) / scale)
  and is a hit exactly when that point lies in the raster. The code evaluates the formula
  in binary64, and the rounded result can fall on the other side of an integer or of a
  bound: for a 300x100 raster in a 400x300 label the point (200, 150), which the formula
  maps to (150, 50), is reported as (150, 49); for a 400x300 raster in a 402x302 label
  the point (0, 151), which the formula maps to (0, 150), is reported as no hit.
\<close>

theorem emit_pixel_exact_counterexample:
  "emit_pixel \<lparr>pixmap = Some \<lparr>pm_width = 300, pm_height = 100, pm_image = []\<rparr>,
               vwidth = 400, vheight = 300\<rparr> (200, 150) = Inr (Some (150, 49)) \<and>
   map_option (\<lambda>(ix, iy). (py_int ix, py_int iy))
     (mapDisplayToImage 200 150 300 100 400 300) = Some (150, 50) \<and>
   emit_pixel \<lparr>pixmap = Some \<lparr>pm_width = 400, pm_height = 300, pm_image = []\<rparr>,
               vwidth = 402, vheight = 302\<rparr> (0, 151) = Inr None \<and>
   map_option (\<lambda>(ix, iy). (py_int ix, py_int iy))
     (mapDisplayToImage 0 151 400 300 402 302) = Some (0, 150)"
proof -
  have a: "emit_pixel \<lparr>pixmap = Some \<lparr>pm_width = 300, pm_height = 100, pm_image = []\<rparr>,
               vwidth = 400, vheight = 300\<rparr> (200, 150) = Inr (Some (150, 49))"
    by code_simp
  have b: "emit_pixel \<lparr>pixmap = Some \<lparr>pm_width = 400, pm_height = 300, pm_image = []\<rparr>,
               vwidth = 402, vheight = 302\<rparr> (0, 151) = Inr None"
    by code_simp
  have c: "mapDisplayToImage 200 150 300 100 400 300 = Some (150, 50)"
    by (simp add: mapDisplayToImage_def Let_def)
  have d: "mapDisplayToImage 0 151 400 300 402 302 = Some (0, 150)"
    by (simp add: mapDisplayToImage_def Let_def)
  show ?thesis unfolding a b c d by (simp add: py_int_def)
qed

text \<open>
  C7 (amended): for a displayed raster fit into a label, both of positive size (below
  2^31, as Qt sizes are), the code evaluates the stated formula in binary64, rounding at
  each step: scale = min (labelWidth / rasterWidth) (labelHeight / rasterHeight), offsets
  (label - raster * scale) / 2, (ix, iy) = ((px - offsetX) / scale, (py - offsetY) / scale).
  It never raises; it reports a hit exactly when the rounded values satisfy
  0 <= ix < rasterWidth and 0 <= iy < rasterHeight, and the coordinates reported are ix
  and iy truncated to integers, which lie inside the raster. A 200x100 raster in a
  400x100 label maps (150, 50) to (50, 50) and reports no hit at (50, 50).
\<close>

theorem emit_pixel_fit_inverse:
  "0 < rw \<Longrightarrow> rw < 2 ^ 31 \<Longrightarrow> 0 < rh \<Longrightarrow> rh < 2 ^ 31 \<Longrightarrow>
   0 < lw \<Longrightarrow> lw < 2 ^ 31 \<Longrightarrow> 0 < lh \<Longrightarrow> lh < 2 ^ 31 \<Longrightarrow>
   emit_pixel \<lparr>pixmap = Some \<lparr>pm_width = rw, pm_height = rh, pm_image = img\<rparr>,
               vwidth = lw, vheight = lh\<rparr> (ppx, ppy) =
     Inr (map_option (\<lambda>(ix, iy). (f64_trunc ix, f64_trunc iy))
            (mapDisplayToImage_f64 ppx ppy rw rh lw lh)) \<and>
   (\<forall>ex ey. emit_pixel \<lparr>pixmap = Some \<lparr>pm_width = rw, pm_height = rh, pm_image = img\<rparr>,
                          vwidth = lw, vheight = lh\<rparr> (ppx, ppy) = Inr (Some (ex, ey)) \<longrightarrow>
      0 \<le> ex \<and> ex < rw \<and> 0 \<le> ey \<and> ey < rh)"
proof -
  assume a: "0 < rw" "rw < 2 ^ 31" "0 < rh" "rh < 2 ^ 31"
    "0 < lw" "lw < 2 ^ 31" "0 < lh" "lh < 2 ^ 31"
  note nz = scale_not_zero [OF a]
  have eq: "emit_pixel \<lparr>pixmap = Some \<lparr>pm_width = rw, pm_height = rh, pm_image = img\<rparr>,
               vwidth = lw, vheight = lh\<rparr> (ppx, ppy) =
     Inr (map_option (\<lambda>(ix, iy). (f64_trunc ix, f64_trunc iy))
            (mapDisplayToImage_f64 ppx ppy rw rh lw lh))"
    unfolding emit_pixel_def mapDisplayToImage_f64_def using a(1,3) nz
    by (simp add: Let_def)
  have "0 \<le> ex \<and> ex < rw \<and> 0 \<le> ey \<and> ey < rh"
    if "map_option (\<lambda>(ix, iy). (f64_trunc ix, f64_trunc iy))
            (mapDisplayToImage_f64 ppx ppy rw rh lw lh) = Some (ex, ey)" for ex ey
  proof -
    from that obtain ix iy where m: "mapDisplayToImage_f64 ppx ppy rw rh lw lh = Some (ix, iy)"
      and t: "ex = f64_trunc ix" "ey = f64_trunc iy" by auto
    from m have "f64_le (F64 0 0) ix \<and> f64_lt ix (F64 rw 0) \<and>
                 f64_le (F64 0 0) iy \<and> f64_lt iy (F64 rh 0)"
      unfolding mapDisplayToImage_f64_def Let_def by (auto split: if_splits)
    then show ?thesis using f64_trunc_range [of ix rw] f64_trunc_range [of iy rh] t by simp
  qed
  then show ?thesis unfolding eq by simp
qed

theorem emit_pixel_fit_inverse_witness:
  "(0::int) < 200 \<and> (200::int) < 2 ^ 31 \<and> (0::int) < 100 \<and> (100::int) < 2 ^ 31 \<and>
   (0::int) < 400 \<and> (400::int) < 2 ^ 31 \<and>
   emit_pixel \<lparr>pixmap = Some \<lparr>pm_width = 200, pm_height = 100, pm_image = []\<rparr>,
               vwidth = 400, vheight = 100\<rparr> (150, 50) = Inr (Some (50, 50)) \<and>
   emit_pixel \<lparr>pixmap = Some \<lparr>pm_width = 200, pm_height = 100, pm_image = []\<rparr>,
               vwidth = 400, vheight = 100\<rparr> (50, 50) = Inr None"
proof -
  have h: "(0::int) < 200" "(200::int) < 2 ^ 31" "(0::int) < 100" "(100::int) < 2 ^ 31"
    "(0::int) < 400" "(400::int) < 2 ^ 31"
    by simp_all
  have m1: "map_option (\<lambda>(ix, iy). (f64_trunc ix, f64_trunc iy))
              (mapDisplayToImage_f64 150 50 200 100 400 100) = Some (50, 50)"
    by code_simp
  have m2: "map_option (\<lambda>(ix, iy). (f64_trunc ix, f64_trunc iy))
              (mapDisplayToImage_f64 50 50 200 100 400 100) = None"
    by code_simp
  note t1 = emit_pixel_fit_inverse [OF h(1,2,3,4,5,6,3,4), of "[]" 150 50, THEN conjunct1]
  note t2 = emit_pixel_fit_inverse [OF h(1,2,3,4,5,6,3,4), of "[]" 50 50, THEN conjunct1]
  have e1: "emit_pixel \<lparr>pixmap = Some \<lparr>pm_width = 200, pm_height = 100, pm_image = []\<rparr>,
               vwidth = 400, vheight = 100\<rparr> (150, 50) = Inr (Some (50, 50))"
    using t1 unfolding m1 .
  have e2: "emit_pixel \<lparr>pixmap = Some \<lparr>pm_width = 200, pm_height = 100, pm_image = []\<rparr>,
               vwidth = 400, vheight = 100\<rparr> (50, 50) = Inr None"
    using t2 unfolding m2 .
  show ?thesis
    by (intro conjI h e1 e2)
qed

section \<open>Viewport state\<close>

lemma ensure_buffer_fields:
  assumes "ensure_buffer t s = Inr (b, s1)"
  shows "zoom s1 = zoom s" "pan_x s1 = pan_x s" "pan_y s1 = pan_y s"
    "rotation_angle s1 = rotation_angle s" "diff_visible s1 = diff_visible s"
    "comparator s1 = comparator s" "left_view s1 = left_view s"
    "mid_view s1 = mid_view s" "right_view s1 = right_view s"
    "frame_slider_value s1 = frame_slider_value s" "zoom_buffer s1 = Some b"
    "zoom_buffer_shape s1 = Some t"
  using assms
  by (auto simp: ensure_buffer_def Let_def split: if_splits prod.splits option.splits)

lemma clamp_pan_fields:
  "zoom (clamp_pan ch cw img s) = zoom s"
  "rotation_angle (clamp_pan ch cw img s) = rotation_angle s"
  "diff_visible (clamp_pan ch cw img s) = diff_visible s"
  "comparator (clamp_pan ch cw img s) = comparator s"
  "left_view (clamp_pan ch cw img s) = left_view s"
  "mid_view (clamp_pan ch cw img s) = mid_view s"
  "right_view (clamp_pan ch cw img s) = right_view s"
  "frame_slider_value (clamp_pan ch cw img s) = frame_slider_value s"
  "zoom_buffer (clamp_pan ch cw img s) = zoom_buffer s"
  "zoom_buffer_shape (clamp_pan ch cw img s) = zoom_buffer_shape s"
  "allocs (clamp_pan ch cw img s) = allocs s"
  by (simp_all add: clamp_pan_def Let_def split: prod.splits)


lemma zoom_in1_snd:
  obtains (unchanged) "snd (zoom_in1 x img s) = s"
      "zoom s = 0 \<or> (\<exists>e. ensure_buffer (crop_h_of s, crop_w_of s, 3) s = Inl e)"
  | (clamped) b s1 e where
      "ensure_buffer (crop_h_of s, crop_w_of s, 3) s = Inr (b, s1)"
      "paste_crop (crop_h_of s) (crop_w_of s) img
         (pan_y (clamp_pan (crop_h_of s) (crop_w_of s) img s1))
         (pan_x (clamp_pan (crop_h_of s) (crop_w_of s) img s1)) (buf_data b) = Inl e"
      "snd (zoom_in1 x img s) = clamp_pan (crop_h_of s) (crop_w_of s) img s1"
  | (pasted) b s1 d where
      "ensure_buffer (crop_h_of s, crop_w_of s, 3) s = Inr (b, s1)"
      "paste_crop (crop_h_of s) (crop_w_of s) img
         (pan_y (clamp_pan (crop_h_of s) (crop_w_of s) img s1))
         (pan_x (clamp_pan (crop_h_of s) (crop_w_of s) img s1)) (buf_data b) = Inr d"
      "snd (zoom_in1 x img s) =
         (clamp_pan (crop_h_of s) (crop_w_of s) img s1)\<lparr>zoom_buffer := Some (b\<lparr>buf_data := d\<rparr>)\<rparr>"
proof (cases "zoom s = 0")
  case True
  then have "snd (zoom_in1 x img s) = s" by (simp add: zoom_in1_def Let_def)
  then show ?thesis using True by (intro unchanged) simp_all
next
  case nz: False
  show ?thesis
  proof (cases "ensure_buffer (crop_h_of s, crop_w_of s, 3) s")
    case (Inl e)
    then have "snd (zoom_in1 x img s) = s"
      using nz by (simp add: zoom_in1_def Let_def crop_h_of_def crop_w_of_def)
    then show ?thesis using Inl by (intro unchanged) simp_all
  next
    case (Inr p)
    obtain b s1 where p: "p = (b, s1)" by (cases p)
    note eb = Inr [unfolded p]
    show ?thesis
    proof (cases "paste_crop (crop_h_of s) (crop_w_of s) img
         (pan_y (clamp_pan (crop_h_of s) (crop_w_of s) img s1))
         (pan_x (clamp_pan (crop_h_of s) (crop_w_of s) img s1)) (buf_data b)")
      case (Inl e)
      have "snd (zoom_in1 x img s) = clamp_pan (crop_h_of s) (crop_w_of s) img s1"
        using nz eb Inl by (simp add: zoom_in1_def Let_def crop_h_of_def crop_w_of_def)
      with eb Inl show ?thesis by (rule clamped)
    next
      case (Inr d)
      have "snd (zoom_in1 x img s) =
         (clamp_pan (crop_h_of s) (crop_w_of s) img s1)\<lparr>zoom_buffer := Some (b\<lparr>buf_data := d\<rparr>)\<rparr>"
        using nz eb Inr by (simp add: zoom_in1_def Let_def crop_h_of_def crop_w_of_def)
      with eb Inr show ?thesis by (rule pasted)
    qed
  qed
qed

lemma zoom_in1_zoom: "zoom (snd (zoom_in1 x img s)) = zoom s"
  by (cases rule: zoom_in1_snd [of x img s])
     (simp_all add: clamp_pan_fields ensure_buffer_fields)








section \<open>Rotation\<close>

text \<open>
  C10: rotate right, rotate left and reset rotation each set the pan offset to (0, 0)
  before the view is rendered again: each is the refresh of the state with the new angle
  and pan (0, 0), so its outcome does not depend on the pan held beforehand.
\<close>

theorem rotation_resets_pan:
  "rotate_right x s =
     on_frame_changed x (frame_slider_value s)
       (s\<lparr>rotation_angle := (rotation_angle s + 90) mod 360, pan_x := 0, pan_y := 0\<rparr>) \<and>
   rotate_left x s =
     on_frame_changed x (frame_slider_value s)
       (s\<lparr>rotation_angle := (rotation_angle s - 90) mod 360, pan_x := 0, pan_y := 0\<rparr>) \<and>
   reset_rotation x s =
     on_frame_changed x (frame_slider_value s)
       (s\<lparr>rotation_angle := 0, pan_x := 0, pan_y := 0\<rparr>) \<and>
   rotate_right x (s\<lparr>pan_x := a, pan_y := b\<rparr>) = rotate_right x s \<and>
   rotate_left x (s\<lparr>pan_x := a, pan_y := b\<rparr>) = rotate_left x s \<and>
   reset_rotation x (s\<lparr>pan_x := a, pan_y := b\<rparr>) = reset_rotation x s"
  by (simp add: rotate_right_def rotate_left_def reset_rotation_def
      reset_pan_and_refresh_def Let_def)

section \<open>Pan clamp\<close>

lemma shape2_solid: "0 < h \<Longrightarrow> shape2 (solid h w p) = (int h, int w)"
  by (cases h) (simp_all add: shape2_def solid_def)

lemma crop_dim_alt: "crop_dim out z = \<lfloor>real_of_int out / z\<rfloor> div 2 * 2"
  using floor_divide_of_int_eq [of "\<lfloor>real_of_int out / z\<rfloor>" 2, where ?'a = real]
  by (simp add: crop_dim_def)

lemma crop_dim_even: "crop_dim out z div 2 * 2 = crop_dim out z"
  by (simp add: crop_dim_alt)

lemma crop_dim_nonneg: "0 < z \<Longrightarrow> 0 \<le> out \<Longrightarrow> 0 \<le> crop_dim out z"
  by (simp add: crop_dim_alt pos_imp_zdiv_nonneg_iff)

lemma ensure_buffer_ok:
  assumes "0 \<le> ch" "0 \<le> cw" "buffer_inv s"
  shows "\<exists>b s1. ensure_buffer (ch, cw, 3) s = Inr (b, s1)"
  using assms
  by (auto simp: ensure_buffer_def buffer_inv_def Let_def split: option.splits)

lemma clamp_pan_pan:
  "shape2 img = (h, w) \<Longrightarrow>
   pan_y (clamp_pan ch cw img s) = np_clip (pan_y s) (- (h div 2) + ch div 2) (h div 2 - ch div 2) \<and>
   pan_x (clamp_pan ch cw img s) = np_clip (pan_x s) (- (w div 2) + cw div 2) (w div 2 - cw div 2)"
  by (simp add: clamp_pan_def Let_def)

lemma zoom_in1_pan:
  assumes "0 < zoom s" "0 \<le> vheight (left_view s)" "0 \<le> vwidth (left_view s)"
    "buffer_inv s" "shape2 img = (h, w)"
  shows "pan_y (snd (zoom_in1 x img s)) =
           np_clip (pan_y s) (- (h div 2) + crop_h_of s div 2) (h div 2 - crop_h_of s div 2) \<and>
         pan_x (snd (zoom_in1 x img s)) =
           np_clip (pan_x s) (- (w div 2) + crop_w_of s div 2) (w div 2 - crop_w_of s div 2)"
proof -
  have nn: "0 \<le> crop_h_of s" "0 \<le> crop_w_of s"
    using assms(1-3) by (simp_all add: crop_h_of_def crop_w_of_def crop_dim_nonneg)
  from ensure_buffer_ok [OF nn assms(4)]
  obtain b0 s0 where ok: "ensure_buffer (crop_h_of s, crop_w_of s, 3) s = Inr (b0, s0)"
    by blast
  show ?thesis
  proof (cases rule: zoom_in1_snd [of x img s])
    case unchanged
    then show ?thesis using assms(1) ok by simp
  next
    case (clamped b s1 e)
    then show ?thesis
      using clamp_pan_pan [OF assms(5)] ensure_buffer_fields(2,3) [OF clamped(1)] by simp
  next
    case (pasted b s1 d)
    then show ?thesis
      using clamp_pan_pan [OF assms(5)] ensure_buffer_fields(2,3) [OF pasted(1)] by simp
  qed
qed

text \<open>
  C1: in every call of the renderer whose crop window fits inside the (rotated) image,
  the pan offsets written back are the requested ones clamped to
  [-halfImg + crop/2, halfImg - crop/2] in each dimension, halfImg being the image
  dimension halved (rounded down). The call is made with a positive zoom and a
  well-formed scratch buffer. For a 100x100 image and a 50x50 crop, a requested
  panX of 1000 becomes 25.
\<close>

theorem zoom_in1_pan_clamp:
  "0 < zoom s \<Longrightarrow> 0 \<le> vheight (left_view s) \<Longrightarrow> 0 \<le> vwidth (left_view s) \<Longrightarrow>
   buffer_inv s \<Longrightarrow> shape2 img = (h, w) \<Longrightarrow> crop_h_of s \<le> h \<Longrightarrow> crop_w_of s \<le> w \<Longrightarrow>
   pan_y (snd (zoom_in1 x img s)) =
     np_clip (pan_y s) (- (h div 2) + crop_h_of s div 2) (h div 2 - crop_h_of s div 2) \<and>
   pan_x (snd (zoom_in1 x img s)) =
     np_clip (pan_x s) (- (w div 2) + crop_w_of s div 2) (w div 2 - crop_w_of s div 2) \<and>
   - (h div 2) + crop_h_of s div 2 \<le> pan_y (snd (zoom_in1 x img s)) \<and>
   pan_y (snd (zoom_in1 x img s)) \<le> h div 2 - crop_h_of s div 2 \<and>
   - (w div 2) + crop_w_of s div 2 \<le> pan_x (snd (zoom_in1 x img s)) \<and>
   pan_x (snd (zoom_in1 x img s)) \<le> w div 2 - crop_w_of s div 2"
proof -
  assume a: "0 < zoom s" "0 \<le> vheight (left_view s)" "0 \<le> vwidth (left_view s)"
    "buffer_inv s" "shape2 img = (h, w)" and f: "crop_h_of s \<le> h" "crop_w_of s \<le> w"
  note p = zoom_in1_pan [OF a, of x]
  have "crop_h_of s div 2 \<le> h div 2" "crop_w_of s div 2 \<le> w div 2"
    using f by (simp_all add: zdiv_mono1)
  then show ?thesis
    using p by (simp add: np_clip_def)
qed


theorem zoom_in1_pan_clamp_witness:
  "0 < zoom ((app_init 100 100)\<lparr>zoom := 2, pan_x := 1000\<rparr>) \<and>
   buffer_inv ((app_init 100 100)\<lparr>zoom := 2, pan_x := 1000\<rparr>) \<and>
   shape2 (solid 100 100 (0, 0, 0)) = (100, 100) \<and>
   crop_h_of ((app_init 100 100)\<lparr>zoom := 2, pan_x := 1000\<rparr>) = 50 \<and>
   crop_w_of ((app_init 100 100)\<lparr>zoom := 2, pan_x := 1000\<rparr>) = 50 \<and>
   pan_x (snd (zoom_in1 no_ext (solid 100 100 (0, 0, 0))
                 ((app_init 100 100)\<lparr>zoom := 2, pan_x := 1000\<rparr>))) = 25 \<and>
   pan_y (snd (zoom_in1 no_ext (solid 100 100 (0, 0, 0))
                 ((app_init 100 100)\<lparr>zoom := 2, pan_x := 1000\<rparr>))) = 0"
proof -
  let ?s = "(app_init 100 100)\<lparr>zoom := 2, pan_x := 1000\<rparr>"
  have z: "0 < zoom ?s" by simp
  have v: "0 \<le> vheight (left_view ?s)" "0 \<le> vwidth (left_view ?s)"
    by (simp_all add: app_init_def Let_def)
  have b: "buffer_inv ?s" by (simp add: buffer_inv_def app_init_def Let_def)
  have sh: "shape2 (solid 100 100 (0, 0, 0)) = (100, 100)"
    using shape2_solid [of 100 100 "(0, 0, 0)"] by simp
  have ch: "crop_h_of ?s = 50" "crop_w_of ?s = 50"
    by (simp_all add: crop_h_of_def crop_w_of_def crop_dim_def app_init_def Let_def)
  have p: "pan_x ?s = 1000" "pan_y ?s = 0" by (simp_all add: app_init_def Let_def)
  have f: "crop_h_of ?s \<le> 100" "crop_w_of ?s \<le> 100" by (simp_all add: ch)
  show ?thesis
    using zoom_in1_pan_clamp [OF z v b sh f, of no_ext] z b sh
    by (simp add: ch p np_clip_def)
qed

section \<open>Scratch buffer and crop paste\<close>

lemma length_overwrite: "lo + length ys \<le> length xs \<Longrightarrow> length (overwrite xs lo ys) = length xs"
  by (simp add: overwrite_def)

lemma nth_overwrite:
  "lo + length ys \<le> length xs \<Longrightarrow> i < length xs \<Longrightarrow>
   overwrite xs lo ys ! i = (if lo \<le> i \<and> i < lo + length ys then ys ! (i - lo) else xs ! i)"
  by (auto simp: overwrite_def nth_append)

lemma slice_bounds_le:
  "0 \<le> n \<Longrightarrow> slice_bounds n a b = (lo, len) \<Longrightarrow> int lo + int len \<le> n"
  by (auto simp: slice_bounds_def Let_def split: if_splits)

lemma length_py_slice:
  "slice_bounds (int (length xs)) a b = (lo, len) \<Longrightarrow> length (py_slice xs a b) = len"
  using slice_bounds_le [of "int (length xs)" a b lo len]
  by (simp add: py_slice_def)

lemma nth_py_slice:
  "slice_bounds (int (length xs)) a b = (lo, len) \<Longrightarrow> i < len \<Longrightarrow>
   py_slice xs a b ! i = xs ! (lo + i)"
  using slice_bounds_le [of "int (length xs)" a b lo len]
  by (simp add: py_slice_def)

text \<open>The copied window along one axis, after the clamp.\<close>

lemma window_fit:
  assumes "0 \<le> c" "even c" "c \<le> n"
    and "q = np_clip p (- (n div 2) + c div 2) (n div 2 - c div 2)"
  shows "src_window n c q = (nat (n div 2 + q - c div 2), nat c)"
    and "dst_window n c q = (0, nat c)"
    and "0 \<le> n div 2 + q - c div 2" and "n div 2 + q - c div 2 + c \<le> n"
proof -
  obtain k where k: "c = 2 * k" using assms(2) by (auto elim: evenE)
  define a where "a = n div 2"
  have a: "2 * a \<le> n" "n \<le> 2 * a + 1" unfolding a_def by presburger+
  have ck: "c div 2 = k" using k by simp
  have q: "- a + k \<le> q" "q \<le> a - k"
    using assms(1,3,4) a k unfolding np_clip_def ck a_def [symmetric] by auto
  show "src_window n c q = (nat (n div 2 + q - c div 2), nat c)"
    unfolding src_window_def slice_bounds_def Let_def ck a_def [symmetric]
    using q a k assms(1) by (auto simp: min_def max_def)
  show "dst_window n c q = (0, nat c)"
    unfolding dst_window_def slice_bounds_def Let_def ck a_def [symmetric]
    using q a k assms(1) by (auto simp: min_def max_def)
  show "0 \<le> n div 2 + q - c div 2" "n div 2 + q - c div 2 + c \<le> n"
    unfolding ck a_def [symmetric] using q a k by auto
qed

lemma window_degenerate:
  assumes "0 \<le> n" "even c" "n < c"
    and "q = np_clip p (- (n div 2) + c div 2) (n div 2 - c div 2)"
  shows "q = n div 2 - c div 2" and "q < 0"
    and "src_window n c q = (0, nat (2 * (n div 2)))"
    and "dst_window n c q = (nat (c div 2 - n div 2), nat (2 * (n div 2)))"
    and "0 \<le> c div 2 - n div 2" and "c div 2 - n div 2 + 2 * (n div 2) \<le> c"
proof -
  obtain k where k: "c = 2 * k" using assms(2) by (auto elim: evenE)
  define a where "a = n div 2"
  have a: "2 * a \<le> n" "n \<le> 2 * a + 1" unfolding a_def by presburger+
  have ck: "c div 2 = k" using k by simp
  have ak: "a < k" "0 \<le> a" using a k assms(1,3) by auto
  show q: "q = n div 2 - c div 2"
    using assms(4) ak unfolding np_clip_def ck a_def [symmetric] by auto
  then have q': "q = a - k" unfolding ck a_def [symmetric] .
  show "q < 0" using q' ak by simp
  show "src_window n c q = (0, nat (2 * (n div 2)))"
    unfolding src_window_def slice_bounds_def Let_def ck a_def [symmetric] q'
    using a k ak by (auto simp: min_def max_def)
  show "dst_window n c q = (nat (c div 2 - n div 2), nat (2 * (n div 2)))"
    unfolding dst_window_def slice_bounds_def Let_def ck a_def [symmetric] q'
    using a k ak by (auto simp: min_def max_def)
  show "0 \<le> c div 2 - n div 2" "c div 2 - n div 2 + 2 * (n div 2) \<le> c"
    unfolding ck a_def [symmetric] using a k ak by auto
qed

lemma stretch_same: "length xs = n \<Longrightarrow> stretch n xs = xs"
  by (simp add: stretch_def)

lemma paste_rows:
  assumes out: "length out = H" "\<And>r. r < H \<Longrightarrow> length (out ! r) = W"
    and img: "sr + lr \<le> length img" "\<And>r. r < length img \<Longrightarrow> sc + lc \<le> length (img ! r)"
    and dst: "dr + lr \<le> H" "dc + lc \<le> W"
  shows "overwrite out dr
           (map2 (\<lambda>orow srow. overwrite orow dc (stretch lc srow)) (take lr (drop dr out))
              (stretch lr (map (\<lambda>row. take lc (drop sc row)) (take lr (drop sr img))))) =
         map (\<lambda>r. map (\<lambda>c. if dr \<le> r \<and> r < dr + lr \<and> dc \<le> c \<and> c < dc + lc
                            then img ! (sr + (r - dr)) ! (sc + (c - dc))
                            else out ! r ! c)
                     [0..<W])
             [0..<H]" (is "_ = ?R")
proof -
  define rows where "rows =
    map2 (\<lambda>orow srow. overwrite orow dc (stretch lc srow)) (take lr (drop dr out))
      (stretch lr (map (\<lambda>row. take lc (drop sc row)) (take lr (drop sr img))))"
  have lsrc: "length (map (\<lambda>row. take lc (drop sc row)) (take lr (drop sr img))) = lr"
    using img(1) by simp
  have lrows: "length rows = lr"
    unfolding rows_def using out(1) dst(1) lsrc by (simp add: stretch_same)
  have row: "rows ! i = overwrite (out ! (dr + i)) dc (take lc (drop sc (img ! (sr + i))))"
    if "i < lr" for i
  proof -
    have "sr + i < length img" using that img(1) by simp
    from img(2) [OF this] have "length (take lc (drop sc (img ! (sr + i)))) = lc" by simp
    then show ?thesis
      unfolding rows_def using that out(1) dst(1) img(1) lsrc by (simp add: stretch_same)
  qed
  have fit: "dr + length rows \<le> length out" using lrows out(1) dst(1) by simp
  have "overwrite out dr rows = ?R"
  proof (rule nth_equalityI)
    show "length (overwrite out dr rows) = length ?R"
      using out(1) fit by (simp add: length_overwrite)
  next
    fix r assume "r < length (overwrite out dr rows)"
    then have r: "r < H" using out(1) fit by (simp add: length_overwrite)
    then have r': "r < length out" using out(1) by simp
    show "overwrite out dr rows ! r = ?R ! r"
    proof (cases "dr \<le> r \<and> r < dr + lr")
      case False
      then have "overwrite out dr rows ! r = out ! r"
        using nth_overwrite [OF fit r'] lrows by auto
      moreover have "?R ! r = out ! r"
        using r False out(2) [OF r] by (auto intro!: nth_equalityI)
      ultimately show ?thesis by simp
    next
      case True
      then have i: "r - dr < lr" by auto
      have si: "sr + (r - dr) < length img" using i img(1) by simp
      define src where "src = take lc (drop sc (img ! (sr + (r - dr))))"
      have lt: "length src = lc"
        unfolding src_def using img(2) [OF si] by simp
      have srcn: "src ! j = img ! (sr + (r - dr)) ! (sc + j)" if "j < lc" for j
        unfolding src_def using that img(2) [OF si] by simp
      have fitc: "dc + length src \<le> length (out ! r)" using lt out(2) [OF r] dst(2) by simp
      have "overwrite out dr rows ! r = rows ! (r - dr)"
        using nth_overwrite [OF fit r'] lrows True by auto
      also have "\<dots> = overwrite (out ! r) dc src"
        using row [OF i] True by (simp add: src_def)
      also have "\<dots> = ?R ! r"
      proof (rule nth_equalityI)
        show "length (overwrite (out ! r) dc src) = length (?R ! r)"
          using r out(2) [OF r] fitc by (simp add: length_overwrite)
      next
        fix c
        assume "c < length (overwrite (out ! r) dc src)"
        then have c: "c < W" using out(2) [OF r] fitc by (simp add: length_overwrite)
        then have c': "c < length (out ! r)" using out(2) [OF r] by simp
        show "overwrite (out ! r) dc src ! c = ?R ! r ! c"
          using nth_overwrite [OF fitc c'] r c True lt srcn [of "c - dc"]
          by auto
      qed
      finally show ?thesis .
    qed
  qed
  then show ?thesis unfolding rows_def .
qed

lemma window_clamped:
  assumes "0 \<le> n" "0 \<le> c" "even c"
    and "q = np_clip p (- (n div 2) + c div 2) (n div 2 - c div 2)"
  shows "\<exists>s d l. src_window n c q = (s, l) \<and> dst_window n c q = (d, l) \<and>
           s + l \<le> nat n \<and> d + l \<le> nat c"
proof (cases "c \<le> n")
  case True
  note f = window_fit [OF assms(2,3) True assms(4)]
  have "nat (n div 2 + q - c div 2) + nat c \<le> nat n" using f(3,4) assms(2) by linarith
  then show ?thesis using f(1,2) by simp
next
  case False
  then have lt: "n < c" by simp
  note d = window_degenerate [OF assms(1,3) lt assms(4)]
  have "nat (c div 2 - n div 2) + nat (2 * (n div 2)) \<le> nat c" using d(5,6) assms(1) by linarith
  moreover have "nat (2 * (n div 2)) \<le> nat n" by linarith
  ultimately show ?thesis using d(3,4) by simp
qed

lemma rect_rows: "rect img \<Longrightarrow> shape2 img = (h, w) \<Longrightarrow> r < length img \<Longrightarrow> int (length (img ! r)) = w"
  using rect_nth [of img r] by simp

lemma np_slice2_eq:
  assumes "rect img" "shape2 img = (h, w)"
    and "slice_bounds h a b = (sr, lr)" "slice_bounds w c d = (sc, lc)"
  shows "np_slice2 img a b c d = map (\<lambda>row. take lc (drop sc row)) (take lr (drop sr img))"
proof -
  have h: "h = int (length img)" using assms(2) by (simp add: shape2_def)
  have rows: "py_slice img a b = take lr (drop sr img)"
    using assms(3) by (simp add: py_slice_def h)
  have "py_slice row c d = take lc (drop sc row)" if "row \<in> set (take lr (drop sr img))" for row
  proof -
    have "row \<in> set img" using that by (meson in_set_dropD in_set_takeD)
    then obtain r where "r < length img" "img ! r = row" by (auto simp: in_set_conv_nth)
    then have "int (length row) = w" using rect_rows [OF assms(1,2)] by auto
    then show ?thesis using assms(4) by (simp add: py_slice_def)
  qed
  then show ?thesis unfolding np_slice2_def rows by simp
qed

lemma paste_crop_overlay:
  assumes "rect img" "shape2 img = (h, w)"
    and "0 \<le> ch" "even ch" "0 \<le> cw" "even cw"
    and "qy = np_clip py (- (h div 2) + ch div 2) (h div 2 - ch div 2)"
    and "qx = np_clip px (- (w div 2) + cw div 2) (w div 2 - cw div 2)"
  shows "paste_crop ch cw img qy qx (np_zeros ch cw) =
           Inr (overlay ch cw img
                  (fst (src_window h ch qy), fst (src_window w cw qx))
                  (fst (dst_window h ch qy), fst (dst_window w cw qx))
                  (snd (src_window h ch qy), snd (src_window w cw qx)))"
proof -
  have hw: "0 \<le> h" "0 \<le> w" "h = int (length img)"
    using assms(2) by (auto simp: shape2_def split: list.splits)
  from window_clamped [OF hw(1) assms(3,4,7)]
  obtain sr dr lr where wy: "src_window h ch qy = (sr, lr)" "dst_window h ch qy = (dr, lr)"
    "sr + lr \<le> nat h" "dr + lr \<le> nat ch" by blast
  from window_clamped [OF hw(2) assms(5,6,8)]
  obtain sc dc lc where wx: "src_window w cw qx = (sc, lc)" "dst_window w cw qx = (dc, lc)"
    "sc + lc \<le> nat w" "dc + lc \<le> nat cw" by blast
  have sl: "np_slice2 img (max 0 (h div 2 + qy - ch div 2)) (h div 2 + qy + ch div 2)
              (max 0 (w div 2 + qx - cw div 2)) (w div 2 + qx + cw div 2) =
            map (\<lambda>row. take lc (drop sc row)) (take lr (drop sr img))"
    using wy(1) wx(1)
    by (intro np_slice2_eq [OF assms(1,2)]) (simp_all add: src_window_def Let_def)
  have pc: "paste_crop ch cw img qy qx out =
        Inr (overwrite out dr
               (map2 (\<lambda>orow srow. overwrite orow dc (stretch lc srow)) (take lr (drop dr out))
                  (stretch lr (map (\<lambda>row. take lc (drop sc row)) (take lr (drop sr img))))))"
    for out
    using wy(1,2) wx(1,2)
    by (simp add: paste_crop_def assms(2) np_assign2_def Let_def sl
        src_window_def dst_window_def)
  have rows: "sc + lc \<le> length (img ! r)" if "r < length img" for r
    using rect_rows [OF assms(1,2) that] wx(3) by linarith
  have "overwrite (np_zeros ch cw) dr
          (map2 (\<lambda>orow srow. overwrite orow dc (stretch lc srow))
             (take lr (drop dr (np_zeros ch cw)))
             (stretch lr (map (\<lambda>row. take lc (drop sc row)) (take lr (drop sr img))))) =
        map (\<lambda>r. map (\<lambda>c. if dr \<le> r \<and> r < dr + lr \<and> dc \<le> c \<and> c < dc + lc
                            then img ! (sr + (r - dr)) ! (sc + (c - dc))
                            else np_zeros ch cw ! r ! c)
                     [0..<nat cw])
            [0..<nat ch]"
    using wy(3) wx(4) wy(4) hw(3) rows
    by (intro paste_rows) (simp_all add: np_zeros_def)
  also have "\<dots> = overlay ch cw img (sr, sc) (dr, dc) (lr, lc)"
    by (simp add: overlay_def np_zeros_def)
  finally show ?thesis
    by (simp add: pc wy(1,2) wx(1,2))
qed

lemma zeroed_eq_np_zeros:
  assumes "int (length d) = bh" "list_all (\<lambda>r. int (length r) = bw) d"
  shows "map (map (\<lambda>_. (0, 0, 0) :: pixel)) d = np_zeros bh bw"
proof -
  have "map (\<lambda>_. (0, 0, 0) :: pixel) r = replicate (nat bw) (0, 0, 0)" if "r \<in> set d" for r
    using that assms(2) by (auto simp: list_all_iff map_replicate_const)
  then have "map (map (\<lambda>_. (0, 0, 0) :: pixel)) d = map (\<lambda>_. replicate (nat bw) (0, 0, 0)) d"
    by simp
  also have "\<dots> = np_zeros bh bw"
    using assms(1) by (auto simp: np_zeros_def map_replicate_const)
  finally show ?thesis .
qed

lemma ensure_buffer_alloc:
  assumes "zoom_buffer_shape s \<noteq> Some (ch, cw, 3)" "ensure_buffer (ch, cw, 3) s = Inr (b, s1)"
  shows "buf_data b = np_zeros ch cw" "buf_id b = allocs s" "allocs s1 = Suc (allocs s)"
  using assms by (auto simp: ensure_buffer_def Let_def split: if_splits)

lemma ensure_buffer_reuse:
  assumes "zoom_buffer_shape s = Some (ch, cw, 3)" "buffer_inv s"
    "ensure_buffer (ch, cw, 3) s = Inr (b, s1)"
  shows "buf_data b = np_zeros ch cw" "allocs s1 = allocs s"
    "\<exists>b0. zoom_buffer s = Some b0 \<and> buf_id b = buf_id b0 \<and> buf_id b0 < allocs s"
proof -
  from assms(1,2) obtain b0 where b0: "zoom_buffer s = Some b0"
    "int (length (buf_data b0)) = ch" "list_all (\<lambda>r. int (length r) = cw) (buf_data b0)"
    "buf_id b0 < allocs s"
    by (auto simp: buffer_inv_def split: option.splits)
  from assms(3) have b: "b = b0\<lparr>buf_data := map (map (\<lambda>_. (0, 0, 0))) (buf_data b0)\<rparr>"
    and s1: "s1 = s\<lparr>zoom_buffer := Some b\<rparr>"
    using assms(1) b0(1) by (auto simp: ensure_buffer_def Let_def)
  show "buf_data b = np_zeros ch cw" using b zeroed_eq_np_zeros [OF b0(2,3)] by simp
  show "allocs s1 = allocs s" using s1 by simp
  show "\<exists>b0. zoom_buffer s = Some b0 \<and> buf_id b = buf_id b0 \<and> buf_id b0 < allocs s"
    using b0(1,4) b by simp
qed

lemma crop_dim_is_even: "even (crop_dim out z)"
  by (simp add: crop_dim_alt)

lemma ensure_buffer_zeros:
  assumes "buffer_inv s" "ensure_buffer (ch, cw, 3) s = Inr (b, s1)"
  shows "buf_data b = np_zeros ch cw"
proof (cases "zoom_buffer_shape s = Some (ch, cw, 3)")
  case True
  then show ?thesis using ensure_buffer_reuse(1) [OF True assms] by simp
next
  case False
  then show ?thesis using ensure_buffer_alloc(1) [OF False assms(2)] by simp
qed

lemma zoom_in1_buffer:
  assumes "0 < zoom s" "0 \<le> vheight (left_view s)" "0 \<le> vwidth (left_view s)"
    "buffer_inv s" "rect img" "shape2 img = (h, w)"
  shows "\<exists>b1 s1. ensure_buffer (crop_h_of s, crop_w_of s, 3) s = Inr (b1, s1) \<and>
           snd (zoom_in1 x img s) =
             (clamp_pan (crop_h_of s) (crop_w_of s) img s1)
               \<lparr>zoom_buffer := Some (b1\<lparr>buf_data :=
                  overlay (crop_h_of s) (crop_w_of s) img
                    (fst (src_window h (crop_h_of s) (pan_y (snd (zoom_in1 x img s)))),
                     fst (src_window w (crop_w_of s) (pan_x (snd (zoom_in1 x img s)))))
                    (fst (dst_window h (crop_h_of s) (pan_y (snd (zoom_in1 x img s)))),
                     fst (dst_window w (crop_w_of s) (pan_x (snd (zoom_in1 x img s)))))
                    (snd (src_window h (crop_h_of s) (pan_y (snd (zoom_in1 x img s)))),
                     snd (src_window w (crop_w_of s) (pan_x (snd (zoom_in1 x img s)))))\<rparr>)\<rparr>"
proof -
  let ?ch = "crop_h_of s" and ?cw = "crop_w_of s"
  have nn: "0 \<le> ?ch" "0 \<le> ?cw"
    using assms(1-3) by (simp_all add: crop_h_of_def crop_w_of_def crop_dim_nonneg)
  have ev: "even ?ch" "even ?cw"
    by (simp_all add: crop_h_of_def crop_w_of_def crop_dim_is_even)
  from ensure_buffer_ok [OF nn assms(4)]
  obtain b0 s0 where ok: "ensure_buffer (?ch, ?cw, 3) s = Inr (b0, s0)" by blast
  note pans = zoom_in1_pan [OF assms(1-4,6), of x]
  have paste: "paste_crop ?ch ?cw img (pan_y (clamp_pan ?ch ?cw img s0))
                 (pan_x (clamp_pan ?ch ?cw img s0)) (buf_data b0) =
               Inr (overlay ?ch ?cw img
                    (fst (src_window h ?ch (pan_y (clamp_pan ?ch ?cw img s0))),
                     fst (src_window w ?cw (pan_x (clamp_pan ?ch ?cw img s0))))
                    (fst (dst_window h ?ch (pan_y (clamp_pan ?ch ?cw img s0))),
                     fst (dst_window w ?cw (pan_x (clamp_pan ?ch ?cw img s0))))
                    (snd (src_window h ?ch (pan_y (clamp_pan ?ch ?cw img s0))),
                     snd (src_window w ?cw (pan_x (clamp_pan ?ch ?cw img s0)))))"
    unfolding ensure_buffer_zeros [OF assms(4) ok]
    using clamp_pan_pan [OF assms(6), of ?ch ?cw s0]
    by (intro paste_crop_overlay [OF assms(5,6) nn(1) ev(1) nn(2) ev(2)]) simp_all
  show ?thesis
  proof (cases rule: zoom_in1_snd [of x img s])
    case unchanged
    then show ?thesis using assms(1) ok by simp
  next
    case (clamped b s1 e)
    then show ?thesis using ok paste by simp
  next
    case (pasted b s1 d)
    then have eq: "b = b0" "s1 = s0" using ok by simp_all
    have d: "d = overlay ?ch ?cw img
                    (fst (src_window h ?ch (pan_y (clamp_pan ?ch ?cw img s0))),
                     fst (src_window w ?cw (pan_x (clamp_pan ?ch ?cw img s0))))
                    (fst (dst_window h ?ch (pan_y (clamp_pan ?ch ?cw img s0))),
                     fst (dst_window w ?cw (pan_x (clamp_pan ?ch ?cw img s0))))
                    (snd (src_window h ?ch (pan_y (clamp_pan ?ch ?cw img s0))),
                     snd (src_window w ?cw (pan_x (clamp_pan ?ch ?cw img s0))))"
      using pasted(2) paste unfolding eq by simp
    have p: "pan_y (snd (zoom_in1 x img s)) = pan_y (clamp_pan ?ch ?cw img s0)"
      "pan_x (snd (zoom_in1 x img s)) = pan_x (clamp_pan ?ch ?cw img s0)"
      using pasted(3) unfolding eq by simp_all
    show ?thesis
      unfolding p using ok pasted(3) d unfolding eq by simp
  qed
qed

lemma zoom_in1_left_view: "left_view (snd (zoom_in1 x img s)) = left_view s"
  by (cases rule: zoom_in1_snd [of x img s])
     (simp_all add: clamp_pan_fields ensure_buffer_fields)

lemma zoom_in1_crop:
  "crop_h_of (snd (zoom_in1 x img s)) = crop_h_of s"
  "crop_w_of (snd (zoom_in1 x img s)) = crop_w_of s"
  by (simp_all add: crop_h_of_def crop_w_of_def zoom_in1_zoom zoom_in1_left_view)

lemma length_overlay: "length (overlay bh bw img a b c) = nat bh"
  by (simp add: overlay_def split: prod.splits)

lemma overlay_rows: "list_all (\<lambda>r. int (length r) = bw) (overlay bh bw img a b c)" if "0 \<le> bw"
  using that by (cases a; cases b; cases c) (auto simp: overlay_def list_all_iff)

lemma overlay_nth:
  "r < nat bh \<Longrightarrow> c < nat bw \<Longrightarrow>
   overlay bh bw img (sr, sc) (dr, dc) (lr, lc) ! r ! c =
     (if dr \<le> r \<and> r < dr + lr \<and> dc \<le> c \<and> c < dc + lc
      then img ! (sr + (r - dr)) ! (sc + (c - dc)) else (0, 0, 0))"
  by (simp add: overlay_def)

lemma app_init_facts:
  "zoom (app_init vw vh) = 1" "pan_x (app_init vw vh) = 0" "pan_y (app_init vw vh) = 0"
  "vwidth (left_view (app_init vw vh)) = vw" "vheight (left_view (app_init vw vh)) = vh"
  "buffer_inv (app_init vw vh)" "allocs (app_init vw vh) = 0"
  "zoom_buffer_shape (app_init vw vh) = None"
  by (simp_all add: app_init_def buffer_inv_def Let_def)

lemma rect_solid: "rect (solid h w p)"
  by (cases h) (simp_all add: rect_def shape2_def solid_def list_all_iff)

lemma centred_2x2:
  "overlay 4 4 (solid 2 2 (0, 0, 255)) (0, 0) (1, 1) (2, 2) =
     [[(0, 0, 0), (0, 0, 0), (0, 0, 0), (0, 0, 0)],
      [(0, 0, 0), (0, 0, 255), (0, 0, 255), (0, 0, 0)],
      [(0, 0, 0), (0, 0, 255), (0, 0, 255), (0, 0, 0)],
      [(0, 0, 0), (0, 0, 0), (0, 0, 0), (0, 0, 0)]]"
  by code_simp

lemma window_2_in_4:
  "src_window 2 4 (- 1) = (0, 2)" "dst_window 2 4 (- 1) = (1, 2)"
  by (simp_all add: src_window_def dst_window_def slice_bounds_def Let_def)

text \<open>
  C6: on every call of the renderer (positive zoom, well-formed buffer record, a
  rectangular image) the scratch array is a newly allocated one exactly when the
  required shape (cropH, cropW, 3) differs from the recorded shape, and the same array
  otherwise; in both cases its content afterwards is the black raster with the copied
  block of the image on it, whatever it held before, so every pixel outside the copied
  overlap is zero. The buffer record stays well-formed, so the same holds for the next call.
\<close>

theorem zoom_in1_scratch_buffer:
  fixes s :: app and img :: frame and x :: ext
  defines "s' \<equiv> snd (zoom_in1 x img s)"
  defines "ch \<equiv> crop_h_of s" and "cw \<equiv> crop_w_of s"
  assumes "0 < zoom s" "0 \<le> vheight (left_view s)" "0 \<le> vwidth (left_view s)"
    "buffer_inv s" "rect img" "shape2 img = (h, w)"
  shows "(\<exists>b. zoom_buffer s' = Some b \<and>
           buf_data b =
             overlay ch cw img
               (fst (src_window h ch (pan_y s')), fst (src_window w cw (pan_x s')))
               (fst (dst_window h ch (pan_y s')), fst (dst_window w cw (pan_x s')))
               (snd (src_window h ch (pan_y s')), snd (src_window w cw (pan_x s'))) \<and>
           (zoom_buffer_shape s \<noteq> Some (ch, cw, 3) \<longrightarrow>
              buf_id b = allocs s \<and> allocs s' = Suc (allocs s)) \<and>
           (zoom_buffer_shape s = Some (ch, cw, 3) \<longrightarrow>
              allocs s' = allocs s \<and> (\<exists>b0. zoom_buffer s = Some b0 \<and> buf_id b = buf_id b0)) \<and>
           (\<forall>r c. r < nat ch \<and> c < nat cw \<and>
                  \<not> (fst (dst_window h ch (pan_y s')) \<le> r \<and>
                     r < fst (dst_window h ch (pan_y s')) + snd (src_window h ch (pan_y s')) \<and>
                     fst (dst_window w cw (pan_x s')) \<le> c \<and>
                     c < fst (dst_window w cw (pan_x s')) + snd (src_window w cw (pan_x s')))
                  \<longrightarrow> buf_data b ! r ! c = (0, 0, 0))) \<and>
         zoom_buffer_shape s' = Some (ch, cw, 3) \<and> buffer_inv s'"
proof -
  have nn: "0 \<le> ch" "0 \<le> cw"
    using assms(4-6) by (simp_all add: ch_def cw_def crop_h_of_def crop_w_of_def crop_dim_nonneg)
  from zoom_in1_buffer [OF assms(4-9), of x]
  obtain b1 s1 where eb: "ensure_buffer (ch, cw, 3) s = Inr (b1, s1)"
    and st: "s' = (clamp_pan ch cw img s1)
               \<lparr>zoom_buffer := Some (b1\<lparr>buf_data :=
                  overlay ch cw img
                    (fst (src_window h ch (pan_y s')), fst (src_window w cw (pan_x s')))
                    (fst (dst_window h ch (pan_y s')), fst (dst_window w cw (pan_x s')))
                    (snd (src_window h ch (pan_y s')), snd (src_window w cw (pan_x s')))\<rparr>)\<rparr>"
    unfolding s'_def ch_def cw_def by blast
  define D where "D = overlay ch cw img
                    (fst (src_window h ch (pan_y s')), fst (src_window w cw (pan_x s')))
                    (fst (dst_window h ch (pan_y s')), fst (dst_window w cw (pan_x s')))
                    (snd (src_window h ch (pan_y s')), snd (src_window w cw (pan_x s')))"
  have st': "s' = (clamp_pan ch cw img s1)\<lparr>zoom_buffer := Some (b1\<lparr>buf_data := D\<rparr>)\<rparr>"
    using st unfolding D_def .
  have zb: "zoom_buffer s' = Some (b1\<lparr>buf_data := D\<rparr>)"
    by (subst st') simp
  have al: "allocs s' = allocs s1"
    by (subst st') (simp add: clamp_pan_fields)
  have sh: "zoom_buffer_shape s' = Some (ch, cw, 3)"
    by (subst st') (simp add: clamp_pan_fields ensure_buffer_fields(12) [OF eb])
  have fresh: "buf_id b1 = allocs s \<and> allocs s' = Suc (allocs s)"
    if "zoom_buffer_shape s \<noteq> Some (ch, cw, 3)"
    using ensure_buffer_alloc(2,3) [OF that eb] al by simp
  have reuse: "allocs s' = allocs s \<and>
       (\<exists>b0. zoom_buffer s = Some b0 \<and> buf_id b1 = buf_id b0 \<and> buf_id b0 < allocs s)"
    if "zoom_buffer_shape s = Some (ch, cw, 3)"
    using ensure_buffer_reuse(2,3) [OF that assms(7) eb] al by simp
  have idlt: "buf_id b1 < allocs s'"
    using fresh reuse by (cases "zoom_buffer_shape s = Some (ch, cw, 3)") auto
  have zero: "D ! r ! c = (0, 0, 0)"
    if "r < nat ch" "c < nat cw"
      "\<not> (fst (dst_window h ch (pan_y s')) \<le> r \<and>
          r < fst (dst_window h ch (pan_y s')) + snd (src_window h ch (pan_y s')) \<and>
          fst (dst_window w cw (pan_x s')) \<le> c \<and>
          c < fst (dst_window w cw (pan_x s')) + snd (src_window w cw (pan_x s')))" for r c
    unfolding D_def by (simp only: overlay_nth [OF that(1,2)] that(3) if_False)
  have inv: "buffer_inv s'"
    unfolding buffer_inv_def sh zb
    using nn idlt overlay_rows [OF nn(2)] by (simp add: D_def length_overlay)
  show ?thesis
    unfolding zb D_def [symmetric]
    using fresh reuse zero sh inv by auto
qed

theorem zoom_in1_scratch_buffer_witness:
  "0 < zoom (snd (zoom_in1 no_ext (solid 4 4 (255, 0, 0)) (app_init 4 4))) \<and>
   buffer_inv (snd (zoom_in1 no_ext (solid 4 4 (255, 0, 0)) (app_init 4 4))) \<and>
   rect (solid 2 2 (0, 0, 255)) \<and> shape2 (solid 2 2 (0, 0, 255)) = (2, 2) \<and>
   zoom_buffer_shape (snd (zoom_in1 no_ext (solid 4 4 (255, 0, 0)) (app_init 4 4))) =
     Some (crop_h_of (snd (zoom_in1 no_ext (solid 4 4 (255, 0, 0)) (app_init 4 4))),
           crop_w_of (snd (zoom_in1 no_ext (solid 4 4 (255, 0, 0)) (app_init 4 4))), 3) \<and>
   allocs (snd (zoom_in1 no_ext (solid 2 2 (0, 0, 255))
                 (snd (zoom_in1 no_ext (solid 4 4 (255, 0, 0)) (app_init 4 4))))) =
     allocs (snd (zoom_in1 no_ext (solid 4 4 (255, 0, 0)) (app_init 4 4))) \<and>
   (\<exists>b. zoom_buffer (snd (zoom_in1 no_ext (solid 2 2 (0, 0, 255))
                 (snd (zoom_in1 no_ext (solid 4 4 (255, 0, 0)) (app_init 4 4))))) = Some b \<and>
        buf_data b =
          [[(0, 0, 0), (0, 0, 0), (0, 0, 0), (0, 0, 0)],
           [(0, 0, 0), (0, 0, 255), (0, 0, 255), (0, 0, 0)],
           [(0, 0, 0), (0, 0, 255), (0, 0, 255), (0, 0, 0)],
           [(0, 0, 0), (0, 0, 0), (0, 0, 0), (0, 0, 0)]])"
proof -
  let ?s0 = "app_init 4 4"
  let ?a = "solid 4 4 (255, 0, 0) :: frame" and ?b = "solid 2 2 (0, 0, 255) :: frame"
  let ?s1 = "snd (zoom_in1 no_ext ?a ?s0)"
  let ?s2 = "snd (zoom_in1 no_ext ?b ?s1)"
  have z0: "0 < zoom ?s0" and v0: "0 \<le> vheight (left_view ?s0)" "0 \<le> vwidth (left_view ?s0)"
    by (simp_all add: app_init_facts)
  have sha: "shape2 ?a = (4, 4)" using shape2_solid [of 4 4 "(255, 0, 0)"] by simp
  have shb: "shape2 ?b = (2, 2)" using shape2_solid [of 2 2 "(0, 0, 255)"] by simp
  have c0: "crop_h_of ?s0 = 4" "crop_w_of ?s0 = 4"
    by (simp_all add: crop_h_of_def crop_w_of_def crop_dim_def app_init_facts)
  have c1: "crop_h_of ?s1 = 4" "crop_w_of ?s1 = 4" by (simp_all add: zoom_in1_crop c0)
  note t1 = zoom_in1_scratch_buffer [OF z0 v0 app_init_facts(6) rect_solid sha, of no_ext]
  have inv1: "buffer_inv ?s1" and sh1: "zoom_buffer_shape ?s1 = Some (4, 4, 3)"
    using t1 by (simp_all add: c0)
  have z1: "0 < zoom ?s1" by (simp add: zoom_in1_zoom app_init_facts)
  have v1: "0 \<le> vheight (left_view ?s1)" "0 \<le> vwidth (left_view ?s1)"
    by (simp_all add: zoom_in1_left_view app_init_facts)
  have p2: "pan_y ?s2 = - 1" "pan_x ?s2 = - 1"
    using zoom_in1_pan [OF z1 v1 inv1 shb, of no_ext]
    by (simp_all add: c1 np_clip_def)
  note t2 = zoom_in1_scratch_buffer [OF z1 v1 inv1 rect_solid shb, of no_ext]
  have "allocs ?s2 = allocs ?s1 \<and>
        (\<exists>b. zoom_buffer ?s2 = Some b \<and>
             buf_data b = overlay 4 4 ?b (0, 0) (1, 1) (2, 2))"
    using t2 sh1 by (auto simp: c1 p2 window_2_in_4)
  then have "allocs ?s2 = allocs ?s1 \<and>
        (\<exists>b. zoom_buffer ?s2 = Some b \<and>
             buf_data b =
               [[(0, 0, 0), (0, 0, 0), (0, 0, 0), (0, 0, 0)],
                [(0, 0, 0), (0, 0, 255), (0, 0, 255), (0, 0, 0)],
                [(0, 0, 0), (0, 0, 255), (0, 0, 255), (0, 0, 0)],
                [(0, 0, 0), (0, 0, 0), (0, 0, 0), (0, 0, 0)]])"
    unfolding centred_2x2 .
  then show ?thesis
    using z1 inv1 rect_solid [of 2 2 "(0, 0, 255)"] shb sh1
    by (simp add: c1)
qed

text \<open>
  C4 (as stated): when the crop window exceeds the image in a dimension, the pan stored
  back in that dimension is 0. The clamp range is then empty and \<open>np.clip\<close> returns its
  upper bound: a 100x100 image under a 200x200 crop, with pan (0, 0) requested, gets pan
  -50 stored back.
\<close>

theorem degenerate_pan_counterexample:
  "shape2 (solid 100 100 (0, 0, 0)) = (100, 100) \<and> crop_h_of (app_init 200 200) = 200 \<and>
   pan_y (app_init 200 200) = 0 \<and>
   pan_y (snd (zoom_in1 no_ext (solid 100 100 (0, 0, 0)) (app_init 200 200))) = - 50"
proof -
  have sh: "shape2 (solid 100 100 (0, 0, 0)) = (100, 100)"
    using shape2_solid [of 100 100 "(0, 0, 0)"] by simp
  have c: "crop_h_of (app_init 200 200) = 200"
    by (simp add: crop_h_of_def crop_dim_def app_init_facts)
  have "pan_y (snd (zoom_in1 no_ext (solid 100 100 (0, 0, 0)) (app_init 200 200))) = - 50"
    using zoom_in1_pan [of "app_init 200 200" "solid 100 100 (0, 0, 0)" 100 100 no_ext] sh
    by (simp add: app_init_facts c np_clip_def)
  then show ?thesis using sh c by (simp add: app_init_facts)
qed

text \<open>
  C4 (amended): when the crop window exceeds the (rotated) image in a dimension, the
  clamp range is empty and the pan stored back in that dimension is its upper bound
  H // 2 - cropH // 2, a negative number that does not depend on the requested pan.
  When the size H of the image in that dimension is even, the image is fully visible in
  it and centred in the crop buffer: all H rows are copied, to the buffer rows from
  (cropH - H) / 2 on, and the rest of the buffer is black. The same holds for the columns.
\<close>

theorem zoom_in1_degenerate_pan:
  fixes s :: app and img :: frame and x :: ext
  defines "s' \<equiv> snd (zoom_in1 x img s)"
  defines "ch \<equiv> crop_h_of s" and "cw \<equiv> crop_w_of s"
  assumes "0 < zoom s" "0 \<le> vheight (left_view s)" "0 \<le> vwidth (left_view s)"
    "buffer_inv s" "rect img" "shape2 img = (h, w)"
  shows "(h < ch \<longrightarrow>
            pan_y s' = h div 2 - ch div 2 \<and> pan_y s' < 0 \<and>
            (even h \<longrightarrow>
               src_window h ch (pan_y s') = (0, nat h) \<and>
               dst_window h ch (pan_y s') = (nat ((ch - h) div 2), nat h))) \<and>
         (w < cw \<longrightarrow>
            pan_x s' = w div 2 - cw div 2 \<and> pan_x s' < 0 \<and>
            (even w \<longrightarrow>
               src_window w cw (pan_x s') = (0, nat w) \<and>
               dst_window w cw (pan_x s') = (nat ((cw - w) div 2), nat w))) \<and>
         (\<exists>b. zoom_buffer s' = Some b \<and>
            buf_data b =
              overlay ch cw img
                (fst (src_window h ch (pan_y s')), fst (src_window w cw (pan_x s')))
                (fst (dst_window h ch (pan_y s')), fst (dst_window w cw (pan_x s')))
                (snd (src_window h ch (pan_y s')), snd (src_window w cw (pan_x s'))))"
proof -
  have hw: "0 \<le> h" "0 \<le> w"
    using assms(9) by (auto simp: shape2_def split: list.splits)
  have ev: "even ch" "even cw"
    by (simp_all add: ch_def cw_def crop_h_of_def crop_w_of_def crop_dim_is_even)
  have pans: "pan_y s' = np_clip (pan_y s) (- (h div 2) + ch div 2) (h div 2 - ch div 2)"
    "pan_x s' = np_clip (pan_x s) (- (w div 2) + cw div 2) (w div 2 - cw div 2)"
    using zoom_in1_pan [OF assms(4-7,9), of x] unfolding s'_def ch_def cw_def by simp_all
  have rows: "pan_y s' = h div 2 - ch div 2 \<and> pan_y s' < 0 \<and>
            (even h \<longrightarrow>
               src_window h ch (pan_y s') = (0, nat h) \<and>
               dst_window h ch (pan_y s') = (nat ((ch - h) div 2), nat h))"
    if "h < ch"
  proof -
    note d = window_degenerate(1-4) [OF hw(1) ev(1) that pans(1)]
    have "2 * (h div 2) = h \<and> ch div 2 - h div 2 = (ch - h) div 2" if "even h"
      using that ev(1) by (auto elim!: evenE)
    then show ?thesis using d by auto
  qed
  have cols: "pan_x s' = w div 2 - cw div 2 \<and> pan_x s' < 0 \<and>
            (even w \<longrightarrow>
               src_window w cw (pan_x s') = (0, nat w) \<and>
               dst_window w cw (pan_x s') = (nat ((cw - w) div 2), nat w))"
    if "w < cw"
  proof -
    note d = window_degenerate(1-4) [OF hw(2) ev(2) that pans(2)]
    have "2 * (w div 2) = w \<and> cw div 2 - w div 2 = (cw - w) div 2" if "even w"
      using that ev(2) by (auto elim!: evenE)
    then show ?thesis using d by auto
  qed
  from zoom_in1_buffer [OF assms(4-9), of x]
  obtain b1 s1 where
    st: "s' = (clamp_pan ch cw img s1)
               \<lparr>zoom_buffer := Some (b1\<lparr>buf_data :=
                  overlay ch cw img
                    (fst (src_window h ch (pan_y s')), fst (src_window w cw (pan_x s')))
                    (fst (dst_window h ch (pan_y s')), fst (dst_window w cw (pan_x s')))
                    (snd (src_window h ch (pan_y s')), snd (src_window w cw (pan_x s')))\<rparr>)\<rparr>"
    unfolding s'_def ch_def cw_def by blast
  define D where "D = overlay ch cw img
                    (fst (src_window h ch (pan_y s')), fst (src_window w cw (pan_x s')))
                    (fst (dst_window h ch (pan_y s')), fst (dst_window w cw (pan_x s')))
                    (snd (src_window h ch (pan_y s')), snd (src_window w cw (pan_x s')))"
  have "zoom_buffer s' = Some (b1\<lparr>buf_data := D\<rparr>)"
    by (subst st) (simp add: D_def)
  then have "\<exists>b. zoom_buffer s' = Some b \<and> buf_data b = D" by simp
  then show ?thesis using rows cols unfolding D_def by blast
qed

theorem zoom_in1_degenerate_pan_witness:
  "0 < zoom ((app_init 4 4)\<lparr>pan_x := 7, pan_y := - 3\<rparr>) \<and>
   buffer_inv ((app_init 4 4)\<lparr>pan_x := 7, pan_y := - 3\<rparr>) \<and>
   rect (solid 2 2 (0, 0, 255)) \<and> shape2 (solid 2 2 (0, 0, 255)) = (2, 2) \<and>
   2 < crop_h_of ((app_init 4 4)\<lparr>pan_x := 7, pan_y := - 3\<rparr>) \<and>
   2 < crop_w_of ((app_init 4 4)\<lparr>pan_x := 7, pan_y := - 3\<rparr>) \<and>
   pan_y (snd (zoom_in1 no_ext (solid 2 2 (0, 0, 255))
                 ((app_init 4 4)\<lparr>pan_x := 7, pan_y := - 3\<rparr>))) = - 1 \<and>
   pan_x (snd (zoom_in1 no_ext (solid 2 2 (0, 0, 255))
                 ((app_init 4 4)\<lparr>pan_x := 7, pan_y := - 3\<rparr>))) = - 1 \<and>
   (\<exists>b. zoom_buffer (snd (zoom_in1 no_ext (solid 2 2 (0, 0, 255))
                 ((app_init 4 4)\<lparr>pan_x := 7, pan_y := - 3\<rparr>))) = Some b \<and>
        buf_data b =
          [[(0, 0, 0), (0, 0, 0), (0, 0, 0), (0, 0, 0)],
           [(0, 0, 0), (0, 0, 255), (0, 0, 255), (0, 0, 0)],
           [(0, 0, 0), (0, 0, 255), (0, 0, 255), (0, 0, 0)],
           [(0, 0, 0), (0, 0, 0), (0, 0, 0), (0, 0, 0)]])"
proof -
  let ?s = "(app_init 4 4)\<lparr>pan_x := 7, pan_y := - 3\<rparr>"
  let ?b = "solid 2 2 (0, 0, 255) :: frame"
  have z: "0 < zoom ?s" and v: "0 \<le> vheight (left_view ?s)" "0 \<le> vwidth (left_view ?s)"
    by (simp_all add: app_init_facts)
  have inv: "buffer_inv ?s" by (simp add: buffer_inv_def app_init_facts)
  have shb: "shape2 ?b = (2, 2)" using shape2_solid [of 2 2 "(0, 0, 255)"] by simp
  have c: "crop_h_of ?s = 4" "crop_w_of ?s = 4"
    by (simp_all add: crop_h_of_def crop_w_of_def crop_dim_def app_init_facts)
  note t = zoom_in1_degenerate_pan [OF z v inv rect_solid shb, of no_ext]
  have p: "pan_y (snd (zoom_in1 no_ext ?b ?s)) = - 1" "pan_x (snd (zoom_in1 no_ext ?b ?s)) = - 1"
    using t by (simp_all add: c)
  have "\<exists>b. zoom_buffer (snd (zoom_in1 no_ext ?b ?s)) = Some b \<and>
             buf_data b = overlay 4 4 ?b (0, 0) (1, 1) (2, 2)"
    using t by (simp add: c p window_2_in_4)
  then have "\<exists>b. zoom_buffer (snd (zoom_in1 no_ext ?b ?s)) = Some b \<and>
             buf_data b =
               [[(0, 0, 0), (0, 0, 0), (0, 0, 0), (0, 0, 0)],
                [(0, 0, 0), (0, 0, 255), (0, 0, 255), (0, 0, 0)],
                [(0, 0, 0), (0, 0, 255), (0, 0, 255), (0, 0, 0)],
                [(0, 0, 0), (0, 0, 0), (0, 0, 0), (0, 0, 0)]]"
    unfolding centred_2x2 .
  then show ?thesis
    using z inv rect_solid [of 2 2 "(0, 0, 255)"] shb p
    by (simp add: c)
qed

end
